theory Spec2Isabelle
  imports Complex_Main "HOL-Library.Word"
begin

section \<open>Values of the page\<close>

text \<open>
  The page script keeps its state in top-level variables and reacts to callbacks of the
  browser: clicks, speech-recognition events, timers, animation frames, the microphone
  permission and the reply of the backend. Every handler is embedded as a function on
  one record holding the script's variables, the parts of the document it writes and
  the browser resources it owns.

  A string is a list of code units; a \<^typ>\<open>char\<close> stands for a code unit below 256.
\<close>

type_synonym byte = "8 word"

text \<open>A value produced by \<^verbatim>\<open>response.json()\<close>.\<close>

datatype js_value =
    JNull
  | JBool bool
  | JNum rat
  | JStr string
  | JArr "js_value list"
  | JObj "(string \<times> js_value) list"

text \<open>
  What is handed to \<^verbatim>\<open>setTranscript\<close> or \<^verbatim>\<open>speakText\<close>: a string of the script, or the
  reply value of the backend, which the template literal coerces to text.
\<close>

datatype shown = Txt string | Val js_value

text \<open>The number assigned to a style property; \<open>NaN\<close> comes from an undefined sample.\<close>

datatype num = Num rat | NaN

record bar =
  transform :: num
  opacity :: num

datatype error = TypeError | ReferenceError | InvalidStateError

datatype main_view = ShowsButton | ShowsBars | ShowsError string

datatype engine_state = Idle | Started | Stopping

record state =
  audioContext :: "nat option"
  mediaStreamSource :: "nat option"
  visualElements :: "bar list option"
  visualValueCount :: nat
  isListeningForSTT :: bool
  isVisualizerActive :: bool
  sttFinalTranscript :: string
  sttPauseTimer :: "nat option"
  transcriptDisplay :: shown
  buttonActive :: bool
  mainView :: main_view
  mainErrorClass :: bool
  engine :: engine_state
  timers :: "nat list"
  nextTimer :: nat
  openContexts :: "nat list"
  closedContexts :: "nat list"
  nextContext :: nat
  liveStreams :: "nat list"
  stoppedStreams :: "nat list"
  nextStream :: nat
  pendingMic :: nat
  renderLoops :: nat
  ttsSupported :: bool
  ttsQueue :: "shown list"
  spoken :: "shown list"
  requests :: "string list"
  inFlight :: nat
  uncaught :: "error list"

section \<open>Strings\<close>

text \<open>
  \<^verbatim>\<open>String.prototype.trim\<close> removes white space and line terminators from both ends.
  Below 256 these are TAB, LF, VT, FF, CR, SPACE and NBSP.
\<close>

definition isWhiteSpace :: "char \<Rightarrow> bool" where
  "isWhiteSpace c =
     (c \<in> set [CHR 0x09, CHR 0x0A, CHR 0x0B, CHR 0x0C, CHR 0x0D, CHR 0x20, CHR 0xA0])"

definition trim :: "string \<Rightarrow> string" where
  "trim t = dropWhile isWhiteSpace (rev (dropWhile isWhiteSpace (rev t)))"

section \<open>Display, button and speech\<close>

definition setTranscript :: "shown \<Rightarrow> state \<Rightarrow> state" where
  "setTranscript t s = s\<lparr>transcriptDisplay := t\<rparr>"

definition toggleMicButtonState :: "bool \<Rightarrow> state \<Rightarrow> state" where
  "toggleMicButtonState active s =
     (if active then s\<lparr>buttonActive := True\<rparr> else s\<lparr>buttonActive := False\<rparr>)"

text \<open>
  \<^verbatim>\<open>speechSynthesis.speaking\<close> holds while the queue of utterances is not empty;
  \<^verbatim>\<open>cancel()\<close> empties the queue and \<^verbatim>\<open>speak\<close> appends to it.
\<close>

definition speakText :: "shown \<Rightarrow> state \<Rightarrow> state" where
  "speakText t s =
     (if ttsSupported s then
        (let s1 = (if ttsQueue s \<noteq> [] then s\<lparr>ttsQueue := []\<rparr> else s)
         in s1\<lparr>ttsQueue := ttsQueue s1 @ [t], spoken := spoken s1 @ [t]\<rparr>)
      else s)"


section \<open>Backend\<close>

text \<open>
  \<^verbatim>\<open>sendToBackend\<close> up to its first \<^verbatim>\<open>await\<close>: the guard, the status line and the request.
  \<open>requests\<close> lists the \<^verbatim>\<open>input\<close> of every POST issued, in order.
\<close>

definition sendToBackend :: "string \<Rightarrow> state \<Rightarrow> state" where
  "sendToBackend t s =
     (if t = [] \<or> trim t = [] then s
      else (let s1 = setTranscript (Txt ''Thinking...'') s
            in s1\<lparr>requests := requests s1 @ [t], inFlight := inFlight s1 + 1\<rparr>))"

text \<open>
  How the request ends: \<^verbatim>\<open>fetch\<close> rejects, or a response arrives with its \<^verbatim>\<open>ok\<close> flag
  and a body that \<^verbatim>\<open>response.json()\<close> parses or rejects.
\<close>

datatype body = Malformed | Parsed js_value

datatype fetch_outcome = NetworkError | Response bool body

fun truthy :: "js_value \<Rightarrow> bool" where
  "truthy JNull = False"
| "truthy (JBool b) = b"
| "truthy (JNum r) = (r \<noteq> 0)"
| "truthy (JStr t) = (t \<noteq> [])"
| "truthy (JArr vs) = True"
| "truthy (JObj kvs) = True"

text \<open>\<^verbatim>\<open>result.response\<close>; \<open>None\<close> is \<^verbatim>\<open>undefined\<close>. A repeated key keeps its last value.\<close>

fun getResponse :: "js_value \<Rightarrow> js_value option" where
  "getResponse (JObj kvs) = map_of (rev kvs) ''response''"
| "getResponse v = None"

text \<open>The \<^verbatim>\<open>catch\<close> block of \<^verbatim>\<open>sendToBackend\<close>.\<close>

definition sendToBackend_catch :: "state \<Rightarrow> state" where
  "sendToBackend_catch s =
     speakText (Txt ''Sorry, I couldn't connect to the AI.'')
       (setTranscript (Txt ''Sorry, I couldn't connect to the AI.'') s)"

text \<open>\<^verbatim>\<open>sendToBackend\<close> after its \<^verbatim>\<open>await\<close>s.\<close>

definition sendToBackend_resume :: "fetch_outcome \<Rightarrow> state \<Rightarrow> state" where
  "sendToBackend_resume outcome s =
     (case outcome of
        NetworkError \<Rightarrow> sendToBackend_catch s
      | Response ok b \<Rightarrow>
          if \<not> ok then sendToBackend_catch s
          else (case b of
              Malformed \<Rightarrow> sendToBackend_catch s
            | Parsed result \<Rightarrow>
                (case (if truthy result then getResponse result else None) of
                   Some v \<Rightarrow>
                     if truthy v then speakText (Val v) (setTranscript (Val v) s)
                     else speakText (Txt ''Sorry, I didn't get a valid response.'')
                            (setTranscript (Txt ''Sorry, I didn't get a valid response.'') s)
                 | None \<Rightarrow>
                     speakText (Txt ''Sorry, I didn't get a valid response.'')
                       (setTranscript (Txt ''Sorry, I didn't get a valid response.'') s))))"

section \<open>Visualizer\<close>

definition createDOMElementsForVisualizer :: "state \<Rightarrow> state" where
  "createDOMElementsForVisualizer s =
     s\<lparr>mainView := ShowsBars,
       visualElements :=
         Some (replicate (visualValueCount s) \<lparr>transform = Num 0, opacity = Num 0\<rparr>)\<rparr>"

definition dataMap :: "(nat \<times> nat) list" where
  "dataMap =
     [(15, 0), (16, 1), (14, 2), (17, 3), (13, 4), (18, 5), (12, 6), (19, 7),
      (11, 8), (20, 9), (10, 10), (21, 11), (9, 12), (22, 13), (8, 14), (23, 15),
      (7, 16), (24, 17), (6, 18), (25, 19), (5, 20), (26, 21), (4, 22), (27, 23),
      (3, 24), (28, 25), (2, 26), (29, 27), (1, 28), (30, 29), (0, 30), (31, 31)]"

text \<open>\<^verbatim>\<open>values[dataMap[i]] / 255\<close>: an index outside the table or the array gives \<open>NaN\<close>.\<close>

definition sampleValue :: "byte list \<Rightarrow> nat \<Rightarrow> num" where
  "sampleValue values i =
     (case map_of dataMap i of
        None \<Rightarrow> NaN
      | Some j \<Rightarrow> if j < length values then Num (of_nat (unat (values ! j)) / 255) else NaN)"

fun mathMax :: "num \<Rightarrow> num \<Rightarrow> num" where
  "mathMax (Num a) (Num b) = Num (max a b)"
| "mathMax x y = NaN"

text \<open>The loop of \<^verbatim>\<open>processFrameForVisualizer\<close> over the bar indices still to draw.\<close>

fun processBars :: "byte list \<Rightarrow> nat list \<Rightarrow> bar list \<Rightarrow> error option \<times> bar list" where
  "processBars values [] elems = (None, elems)"
| "processBars values (i # is) elems =
     (let v = sampleValue values i
      in if i < length elems
         then processBars values is
                (elems[i := \<lparr>transform = v, opacity = mathMax (Num (1 / 4)) v\<rparr>])
         else (Some TypeError, elems))"

definition processFrameForVisualizer :: "byte list \<Rightarrow> state \<Rightarrow> error option \<times> state" where
  "processFrameForVisualizer data s =
     (case visualElements s of
        None \<Rightarrow> (if visualValueCount s = 0 then (None, s) else (Some TypeError, s))
      | Some elems \<Rightarrow>
          (case processBars data [0 ..< visualValueCount s] elems of
             (e, elems') \<Rightarrow> (e, s\<lparr>visualElements := Some elems'\<rparr>)))"

definition processVisualizerError :: "string \<Rightarrow> state \<Rightarrow> state" where
  "processVisualizerError name s =
     speakText (Txt ''Mic Access Denied'')
       (setTranscript (Txt ''Mic Access Denied'')
         (toggleMicButtonState False
           (s\<lparr>mainErrorClass := True, mainView := ShowsError name,
              isVisualizerActive := False\<rparr>)))"

text \<open>
  \<^verbatim>\<open>startVisualizer\<close> up to \<^verbatim>\<open>await getUserMedia\<close>: the guard, the bars, a new audio
  context, the permission request. The constructor of the audio context is taken to
  succeed. The analyser is created together with the context and is not tracked: the
  script never disconnects or releases it.
\<close>

definition startVisualizer :: "state \<Rightarrow> state" where
  "startVisualizer s =
     (if isVisualizerActive s then s
      else (let s1 = createDOMElementsForVisualizer s;
                s2 = s1\<lparr>visualElements :=
                        map_option (map (\<lambda>elm. \<lparr>transform = Num (1 / 2), opacity = Num (1 / 4)\<rparr>))
                          (visualElements s1)\<rparr>;
                c = nextContext s2
            in s2\<lparr>audioContext := Some c, openContexts := openContexts s2 @ [c],
                  nextContext := c + 1, pendingMic := pendingMic s2 + 1\<rparr>))"

text \<open>The \<^verbatim>\<open>catch\<close> block of \<^verbatim>\<open>startVisualizer\<close>.\<close>

definition startVisualizer_catch :: "string \<Rightarrow> state \<Rightarrow> state" where
  "startVisualizer_catch name s =
     (let s1 = processVisualizerError name s
      in if mainView s1 \<noteq> ShowsButton then s1\<lparr>mainView := ShowsButton\<rparr> else s1)"

text \<open>
  \<^verbatim>\<open>startVisualizer\<close> after the permission is granted with stream \<open>k\<close>:
  \<^verbatim>\<open>audioContext.createMediaStreamSource\<close> throws when \<^verbatim>\<open>audioContext\<close> is null.
\<close>

definition startVisualizer_granted :: "nat \<Rightarrow> state \<Rightarrow> state" where
  "startVisualizer_granted k s =
     (case audioContext s of
        None \<Rightarrow> startVisualizer_catch ''TypeError'' s
      | Some c \<Rightarrow>
          s\<lparr>mediaStreamSource := Some k, isVisualizerActive := True,
            renderLoops := renderLoops s + 1\<rparr>)"

text \<open>The frame callback, with the samples the analyser delivers.\<close>

definition renderVisualizerFrame :: "byte list \<Rightarrow> state \<Rightarrow> error option \<times> state" where
  "renderVisualizerFrame frequencyData s =
     (if isVisualizerActive s then
        (case processFrameForVisualizer frequencyData s of
           (None, s1) \<Rightarrow> (None, s1\<lparr>renderLoops := renderLoops s1 + 1\<rparr>)
         | (Some e, s1) \<Rightarrow> (Some e, s1))
      else
        (case visualElements s of
           None \<Rightarrow> (Some TypeError, s)
         | Some elems \<Rightarrow>
             (None, s\<lparr>visualElements :=
                        Some (map (\<lambda>elm. \<lparr>transform = Num 0, opacity = Num 0\<rparr>) elems)\<rparr>)))"

text \<open>
  \<open>stoppedStreams\<close> and \<open>closedContexts\<close> log every release, so that a second release
  of one resource would show.
\<close>

definition stopVisualizer :: "state \<Rightarrow> error option \<times> state" where
  "stopVisualizer s =
     (let s1 = (case mediaStreamSource s of
                  Some k \<Rightarrow>
                    s\<lparr>liveStreams := removeAll k (liveStreams s),
                      stoppedStreams := stoppedStreams s @ [k],
                      mediaStreamSource := None\<rparr>
                | None \<Rightarrow> s);
          s2 = (case audioContext s1 of
                  Some c \<Rightarrow>
                    if c \<in> set (openContexts s1)
                    then s1\<lparr>openContexts := removeAll c (openContexts s1),
                            closedContexts := closedContexts s1 @ [c],
                            audioContext := None\<rparr>
                    else s1
                | None \<Rightarrow> s1);
          s3 = s2\<lparr>isVisualizerActive := False\<rparr>
      in case visualElements s3 of
           None \<Rightarrow> (Some TypeError, s3)
         | Some elems \<Rightarrow>
             (let s4 = s3\<lparr>visualElements :=
                          Some (map (\<lambda>elm. \<lparr>transform = Num 0, opacity = Num 0\<rparr>) elems)\<rparr>
              in (None, if mainView s4 \<noteq> ShowsButton then s4\<lparr>mainView := ShowsButton\<rparr> else s4)))"

section \<open>Timers\<close>

text \<open>
  \<open>timers\<close> is the browser's table of timeouts still to fire. \<^verbatim>\<open>clearTimeout\<close> of
  \<^verbatim>\<open>null\<close> or of a handle that has fired or was cleared does nothing.
\<close>

definition clearTimeout :: "nat option \<Rightarrow> state \<Rightarrow> state" where
  "clearTimeout h s =
     (case h of None \<Rightarrow> s | Some t \<Rightarrow> s\<lparr>timers := removeAll t (timers s)\<rparr>)"

definition setTimeout :: "state \<Rightarrow> nat \<times> state" where
  "setTimeout s =
     (nextTimer s, s\<lparr>timers := timers s @ [nextTimer s], nextTimer := nextTimer s + 1\<rparr>)"

section \<open>Speech recognition callbacks\<close>

record recognition_result =
  isFinal :: bool
  transcript :: string

record result_event =
  resultIndex :: nat
  results :: "recognition_result list"

text \<open>
  The loop of \<^verbatim>\<open>onresult\<close> from \<^verbatim>\<open>event.resultIndex\<close> on; the pair is
  \<^verbatim>\<open>(interimTranscript, finalTranscriptSinceLastResult)\<close>.
\<close>

fun scanResults :: "recognition_result list \<Rightarrow> string \<times> string \<Rightarrow> string \<times> string" where
  "scanResults [] acc = acc"
| "scanResults (r # rs) (interim, final) =
     (if isFinal r then scanResults rs (interim, final @ transcript r)
      else scanResults rs (interim @ transcript r, final))"

text \<open>The callback of the pause timer set in \<^verbatim>\<open>onresult\<close>.\<close>

definition pauseTimerFired :: "state \<Rightarrow> state" where
  "pauseTimerFired s =
     (let textToSend = trim (sttFinalTranscript s);
          s1 = (if textToSend \<noteq> [] then sendToBackend textToSend s else s)
      in s1\<lparr>sttFinalTranscript := []\<rparr>)"

definition onstart :: "state \<Rightarrow> error option \<times> state" where
  "onstart s =
     (let s1 = s\<lparr>isListeningForSTT := True, sttFinalTranscript := []\<rparr>;
          s2 = clearTimeout (sttPauseTimer s1) s1
      in if \<not> ttsSupported s2 then (Some ReferenceError, s2)
         else (let s3 = (if ttsQueue s2 \<noteq> [] then s2\<lparr>ttsQueue := []\<rparr> else s2)
               in (None, toggleMicButtonState True (setTranscript (Txt ''Listening...'') s3))))"

definition onresult :: "result_event \<Rightarrow> state \<Rightarrow> state" where
  "onresult ev s =
     (let s1 = clearTimeout (sttPauseTimer s) s;
          (interimTranscript, finalTranscriptSinceLastResult) =
             scanResults (drop (resultIndex ev) (results ev)) ([], []);
          s2 = (if finalTranscriptSinceLastResult \<noteq> []
                then s1\<lparr>sttFinalTranscript :=
                          sttFinalTranscript s1 @ finalTranscriptSinceLastResult @ '' ''\<rparr>
                else s1);
          s3 = setTranscript (Txt (sttFinalTranscript s2 @ interimTranscript)) s2;
          (t, s4) = setTimeout s3
      in s4\<lparr>sttPauseTimer := Some t\<rparr>)"

definition errorMessage :: "string \<Rightarrow> string" where
  "errorMessage kind =
     (if kind = ''no-speech'' then ''I didn't hear anything. Please try again.''
      else if kind = ''not-allowed''
      then ''Microphone access denied. Please allow it in your browser settings.''
      else ''Speech input error. Please try again.'')"

definition onerror :: "string \<Rightarrow> state \<Rightarrow> error option \<times> state" where
  "onerror kind s =
     (let s1 = clearTimeout (sttPauseTimer s) s;
          s2 = toggleMicButtonState False (s1\<lparr>isListeningForSTT := False\<rparr>)
      in case stopVisualizer s2 of
           (Some e, s3) \<Rightarrow> (Some e, s3)
         | (None, s3) \<Rightarrow>
             (None, speakText (Txt (errorMessage kind))
                      (setTranscript (Txt (errorMessage kind)) s3)))"

definition onend :: "state \<Rightarrow> state" where
  "onend s =
     (let s1 = clearTimeout (sttPauseTimer s) (s\<lparr>isListeningForSTT := False\<rparr>);
          textToSend = trim (sttFinalTranscript s1);
          s2 = (if textToSend \<noteq> [] then sendToBackend textToSend s1 else s1)
      in s2\<lparr>sttFinalTranscript := []\<rparr>)"

subsection \<open>The simpler variant (script.js)\<close>

definition onerror_simple :: "string \<Rightarrow> state \<Rightarrow> error option \<times> state" where
  "onerror_simple kind s =
     (let s1 = toggleMicButtonState False (s\<lparr>isListeningForSTT := False\<rparr>)
      in case stopVisualizer s1 of
           (Some e, s2) \<Rightarrow> (Some e, s2)
         | (None, s2) \<Rightarrow> (None, setTranscript (Txt (errorMessage kind)) s2))"

definition onend_simple :: "state \<Rightarrow> error option \<times> state" where
  "onend_simple s =
     stopVisualizer
       (toggleMicButtonState False
         (setTranscript (Txt ''Ready'') (s\<lparr>isListeningForSTT := False\<rparr>)))"

section \<open>Toggle\<close>

text \<open>
  \<^verbatim>\<open>recognition.stop()\<close> only asks the engine to stop; \<^verbatim>\<open>recognition.start()\<close> throws
  when the engine has been started and has not ended.
\<close>

definition recognition_stop :: "state \<Rightarrow> state" where
  "recognition_stop s = (if engine s = Started then s\<lparr>engine := Stopping\<rparr> else s)"

definition recognition_start :: "state \<Rightarrow> error option \<times> state" where
  "recognition_start s =
     (if engine s = Idle then (None, s\<lparr>engine := Started\<rparr>) else (Some InvalidStateError, s))"

definition toggleSTTAndVisualizer :: "state \<Rightarrow> error option \<times> state" where
  "toggleSTTAndVisualizer s =
     (if isListeningForSTT s then (None, recognition_stop s)
      else recognition_start (startVisualizer s))"

section \<open>Events\<close>

datatype event =
    Click
  | SpeechStart
  | SpeechResult result_event
  | SpeechError string
  | SpeechEnd
  | TimerFired nat
  | MicGranted
  | MicDenied string
  | AnimationFrame "byte list"
  | FetchSettled fetch_outcome
  | UtteranceEnded

text \<open>An exception that leaves a handler is reported and the handler's writes stay.\<close>

definition report :: "error option \<times> state \<Rightarrow> state" where
  "report r = (case r of (None, s) \<Rightarrow> s | (Some e, s) \<Rightarrow> s\<lparr>uncaught := uncaught s @ [e]\<rparr>)"

text \<open>
  One event of the browser. A click runs the toggle; where the button stands inside
  \<^verbatim>\<open>main\<close> it is out of the document while the bars are shown, so that the clicks
  allowed here are more than can come. The engine raises its events between
  \<^verbatim>\<open>start()\<close> and the end of the session; a timer fires only while it is in the table; a
  permission request or a reply arrives only while one is awaited; the analyser fills
  an array of 32 bytes.
\<close>

fun fire :: "event \<Rightarrow> state \<Rightarrow> state" where
  "fire Click s = report (toggleSTTAndVisualizer s)"
| "fire SpeechStart s = (if engine s = Idle then s else report (onstart s))"
| "fire (SpeechResult ev) s = (if engine s = Idle then s else onresult ev s)"
| "fire (SpeechError kind) s = (if engine s = Idle then s else report (onerror kind s))"
| "fire SpeechEnd s = (if engine s = Idle then s else onend (s\<lparr>engine := Idle\<rparr>))"
| "fire (TimerFired t) s =
     (if t \<in> set (timers s) then pauseTimerFired (s\<lparr>timers := removeAll t (timers s)\<rparr>)
      else s)"
| "fire MicGranted s =
     (if pendingMic s = 0 then s
      else (let k = nextStream s
            in startVisualizer_granted k
                 (s\<lparr>pendingMic := pendingMic s - 1, nextStream := k + 1,
                    liveStreams := liveStreams s @ [k]\<rparr>)))"
| "fire (MicDenied name) s =
     (if pendingMic s = 0 then s
      else startVisualizer_catch name (s\<lparr>pendingMic := pendingMic s - 1\<rparr>))"
| "fire (AnimationFrame d) s =
     (if renderLoops s = 0 then s
      else report (renderVisualizerFrame (take 32 (d @ replicate 32 0))
                     (s\<lparr>renderLoops := renderLoops s - 1\<rparr>)))"
| "fire (FetchSettled outcome) s =
     (if inFlight s = 0 then s
      else sendToBackend_resume outcome (s\<lparr>inFlight := inFlight s - 1\<rparr>))"
| "fire UtteranceEnded s = s\<lparr>ttsQueue := tl (ttsQueue s)\<rparr>"

fun run :: "event list \<Rightarrow> state \<Rightarrow> state" where
  "run [] s = s"
| "run (e # es) s = run es (fire e s)"

text \<open>
  The page after the \<^verbatim>\<open>load\<close> handler, with \<open>n\<close> bars and speech synthesis present or
  not; speech recognition is present (otherwise the button is disabled for good).
\<close>

definition init :: "nat \<Rightarrow> bool \<Rightarrow> state" where
  \<open>init n tts =
     speakText (Txt ''Click start to talk.'')
       (setTranscript (Txt ''Click "start" to talk.'')
         \<lparr>audioContext = None, mediaStreamSource = None, visualElements = None,
          visualValueCount = n, isListeningForSTT = False, isVisualizerActive = False,
          sttFinalTranscript = [], sttPauseTimer = None, transcriptDisplay = Txt [],
          buttonActive = False, mainView = ShowsButton, mainErrorClass = False,
          engine = Idle, timers = [], nextTimer = 1, openContexts = [],
          closedContexts = [], nextContext = 0, liveStreams = [], stoppedStreams = [],
          nextStream = 0, pendingMic = 0, renderLoops = 0, ttsSupported = tts,
          ttsQueue = [], spoken = [], requests = [], inFlight = 0, uncaught = []\<rparr>)\<close>

inductive reachable :: "nat \<Rightarrow> bool \<Rightarrow> state \<Rightarrow> bool" where
  start: "reachable n tts (init n tts)"
| step: "reachable n tts s \<Longrightarrow> reachable n tts (fire e s)"

section \<open>Notions used to state the properties\<close>

text \<open>The fragments one result event delivers, and those of a sequence of events.\<close>

definition fragments :: "result_event \<Rightarrow> recognition_result list" where
  "fragments ev = drop (resultIndex ev) (results ev)"

text \<open>The final text one result event adds, as \<^verbatim>\<open>onresult\<close> collects it.\<close>

definition finalText :: "result_event \<Rightarrow> string" where
  "finalText ev = snd (scanResults (fragments ev) ([], []))"

text \<open>Joining with single spaces.\<close>

fun joinSp :: "string list \<Rightarrow> string" where
  "joinSp [] = []"
| "joinSp [x] = x"
| "joinSp (x # y # ys) = x @ '' '' @ joinSp (y # ys)"

text \<open>
  The utterance as the specification words it: the texts of the final fragments only,
  joined by spaces, trimmed.
\<close>

definition specUtterance :: "result_event list \<Rightarrow> string" where
  "specUtterance evs =
     trim (joinSp (map transcript (filter isFinal (concat (map fragments evs)))))"

text \<open>
  The utterance as the code builds it: the final text of each event that has some,
  joined by spaces, trimmed.
\<close>

definition utterance :: "result_event list \<Rightarrow> string" where
  "utterance evs = trim (joinSp (filter (\<lambda>f. f \<noteq> []) (map finalText evs)))"

text \<open>The bar drawn at index \<open>i\<close> for a frame.\<close>

definition drawnBar :: "byte list \<Rightarrow> nat \<Rightarrow> bar" where
  "drawnBar data i =
     \<lparr>transform = sampleValue data i, opacity = mathMax (Num (1 / 4)) (sampleValue data i)\<rparr>"

definition hiddenBar :: bar where
  "hiddenBar = \<lparr>transform = Num 0, opacity = Num 0\<rparr>"

text \<open>What one result event appends to \<^verbatim>\<open>sttFinalTranscript\<close>.\<close>

definition appended :: "result_event \<Rightarrow> string" where
  "appended ev = (if finalText ev = [] then [] else finalText ev @ '' '')"

text \<open>
  Fanning out from the centre: bucket 0 at bar 15, bucket 1 at bar 16, bucket 2 at
  bar 14, and so on outwards.
\<close>

definition barOfBucket :: "nat \<Rightarrow> nat" where
  "barOfBucket k = (if even k then 15 - k div 2 else 16 + k div 2)"

text \<open>At most one timer is in the table, and it is the one \<^verbatim>\<open>sttPauseTimer\<close> names.\<close>

definition oneTimer :: "state \<Rightarrow> bool" where
  "oneTimer s =
     (case timers s of [] \<Rightarrow> True | [t] \<Rightarrow> sttPauseTimer s = Some t | t # u # ts \<Rightarrow> False)"

text \<open>The example of the specification: an interim \<open>hello\<close>, then a final \<open>hello world\<close>.\<close>

definition helloEvents :: "result_event list" where
  "helloEvents =
     [\<lparr>resultIndex = 0, results = [\<lparr>isFinal = False, transcript = ''hello''\<rparr>]\<rparr>,
      \<lparr>resultIndex = 0, results = [\<lparr>isFinal = True, transcript = ''hello world''\<rparr>]\<rparr>]"

text \<open>One event that finalises two fragments at once.\<close>

definition twoFinals :: result_event where
  "twoFinals =
     \<lparr>resultIndex = 0,
      results = [\<lparr>isFinal = True, transcript = ''a''\<rparr>, \<lparr>isFinal = True, transcript = ''b''\<rparr>]\<rparr>"

text \<open>
  The bars exist with the configured count whenever the visualizer is active or a
  permission request is pending.
\<close>

definition barsInv :: "nat \<Rightarrow> state \<Rightarrow> bool" where
  "barsInv n s =
     (visualValueCount s = n \<and>
      (if visualElements s = None then \<not> isVisualizerActive s \<and> pendingMic s = 0
       else length (the (visualElements s)) = n))"

text \<open>
  The bar the specification describes at index \<open>i\<close>: the sample the table selects,
  divided by 255, as the scale, and the larger of it and 0.25 as the opacity. Numbers
  are exact rationals here; the script's doubles round the quotient, while 0, 0.25 and
  the comparison with 0.25 are exact in both.
\<close>

definition scaledBar :: "byte list \<Rightarrow> nat \<Rightarrow> bar" where
  "scaledBar data i =
     (let v = of_nat (unat (data ! the (map_of dataMap i))) / 255
      in \<lparr>transform = Num v, opacity = Num (max (1 / 4) v)\<rparr>)"

text \<open>
  A stream that is live, that no variable of the script refers to any more, and that
  is older than any stream still to come.
\<close>

definition leaked :: "nat \<Rightarrow> state \<Rightarrow> bool" where
  "leaked k s =
     (k \<in> set (liveStreams s) \<and> mediaStreamSource s \<noteq> Some k \<and> k < nextStream s)"

section \<open>Strings: trimming and joining\<close>

lemma last_dropWhile: "dropWhile P xs \<noteq> [] \<Longrightarrow> last (dropWhile P xs) = last xs"
  by (induction xs) auto

lemma trimEnd_id: "xs = [] \<or> \<not> P (last xs) \<Longrightarrow> rev (dropWhile P (rev xs)) = xs"
  by (cases xs rule: rev_cases) auto

lemma trimEnd_last:
  "rev (dropWhile P (rev xs)) = [] \<or> \<not> P (last (rev (dropWhile P (rev xs))))"
proof (cases "dropWhile P (rev xs) = []")
  case True
  then show ?thesis by simp
next
  case False
  then have "\<not> P (hd (dropWhile P (rev xs)))" by (rule hd_dropWhile)
  with False show ?thesis by (simp add: last_rev)
qed

lemma trim_trim: "trim (trim t) = trim t"
proof -
  let ?a = "rev (dropWhile isWhiteSpace (rev t))"
  let ?u = "dropWhile isWhiteSpace ?a"
  have "?u = [] \<or> \<not> isWhiteSpace (last ?u)"
  proof (cases "?u = []")
    case True
    then show ?thesis by blast
  next
    case False
    have ne: "?a \<noteq> []"
    proof
      assume e: "?a = []"
      have "?u = []" unfolding e by simp
      with False show False by simp
    qed
    have "last ?u = last ?a" using False by (rule last_dropWhile)
    moreover have "\<not> isWhiteSpace (last ?a)"
      using trimEnd_last [of isWhiteSpace t] ne by blast
    ultimately show ?thesis by simp
  qed
  then have "rev (dropWhile isWhiteSpace (rev ?u)) = ?u" by (rule trimEnd_id)
  then show ?thesis by (simp add: trim_def)
qed

lemma trim_snoc_space: "trim (t @ '' '') = trim t"
  by (simp add: trim_def isWhiteSpace_def)

lemma concat_spaced: "fs \<noteq> [] \<Longrightarrow> concat (map (\<lambda>f. f @ '' '') fs) = joinSp fs @ '' ''"
  by (induction fs rule: joinSp.induct) auto

lemma trim_concat_spaced: "trim (concat (map (\<lambda>f. f @ '' '') fs)) = trim (joinSp fs)"
proof (cases "fs = []")
  case True
  then show ?thesis by simp
next
  case False
  then show ?thesis using trim_snoc_space [of "joinSp fs"] by (simp add: concat_spaced)
qed

lemma scanResults_eq:
  "scanResults rs (i, f) =
     (i @ concat (map transcript (filter (\<lambda>r. \<not> isFinal r) rs)),
      f @ concat (map transcript (filter isFinal rs)))"
  by (induction rs arbitrary: i f) auto

lemma finalText_eq: "finalText ev = concat (map transcript (filter isFinal (fragments ev)))"
  by (simp add: finalText_def scanResults_eq)

lemmas page_defs =
  init_def speakText_def setTranscript_def toggleMicButtonState_def sendToBackend_def
  sendToBackend_catch_def sendToBackend_resume_def createDOMElementsForVisualizer_def
  processFrameForVisualizer_def processVisualizerError_def startVisualizer_def
  startVisualizer_catch_def startVisualizer_granted_def renderVisualizerFrame_def
  stopVisualizer_def clearTimeout_def setTimeout_def pauseTimerFired_def onstart_def
  onresult_def errorMessage_def onerror_def onend_def onerror_simple_def onend_simple_def
  recognition_stop_def recognition_start_def toggleSTTAndVisualizer_def report_def
  trim_def isWhiteSpace_def

section \<open>The table of bars\<close>

lemma dataMap_closed:
  "i < 32 \<Longrightarrow> map_of dataMap i = Some (if i < 16 then 30 - 2 * i else 2 * i - 31)"
proof -
  assume "i < 32"
  then have "i \<in> set [0..<32]" by simp
  then show ?thesis unfolding dataMap_def
    by (simp add: upt_rec) (elim disjE; simp)
qed

text \<open>With 32 bars the table is a bijection on \<open>0..31\<close> and its inverse fans out from the centre.\<close>

lemma dataMap_bij_32: "bij_betw (\<lambda>i. the (map_of dataMap i)) {0..<32} {0..<32}"
proof (rule bij_betw_byWitness [where f' = barOfBucket])
  show "\<forall>i\<in>{0..<32}. barOfBucket (the (map_of dataMap i)) = i"
    by (auto simp: dataMap_closed barOfBucket_def)
  show "\<forall>k\<in>{0..<32}. the (map_of dataMap (barOfBucket k)) = k"
    by (auto simp: dataMap_closed barOfBucket_def elim!: oddE evenE)
  show "(\<lambda>i. the (map_of dataMap i)) ` {0..<32} \<subseteq> {0..<32}"
    by (auto simp: dataMap_closed)
  show "barOfBucket ` {0..<32} \<subseteq> {0..<32}"
    by (auto simp: barOfBucket_def)
qed

text \<open>
  C6. The table of bars is a bijection on its domain, on \<open>0..31\<close> with 32 bars and on
  \<open>0..15\<close> with 16 bars, fanning out from the centre. The script has one table of 32
  entries for both counts. With 16 bars, bar \<open>i\<close> reads bucket \<open>30 - 2 * i\<close>: the buckets
  read are the even ones from 30 down to 0, which is neither a map into \<open>0..15\<close> nor a
  fan from the centre (bucket 0 is at bar 15, the last one).
\<close>

theorem dataMap_16_bars:
  "map (map_of dataMap) [0..<16] =
     map Some [30, 28, 26, 24, 22, 20, 18, 16, 14, 12, 10, 8, 6, 4, 2, 0]"
  by (simp add: dataMap_def upt_rec)

section \<open>Stopping the visualizer\<close>

text \<open>
  C8. Stopping twice in a row is harmless: the second \<^verbatim>\<open>stopVisualizer\<close> leaves the
  state as the first left it, the logs of stopped streams and closed contexts
  included, and it raises nothing when the bars exist. In the simpler variant the
  \<^verbatim>\<open>onend\<close> that follows an \<^verbatim>\<open>onerror\<close> releases nothing again.
\<close>

theorem stopVisualizer_idempotent:
  "stopVisualizer (snd (stopVisualizer s)) = stopVisualizer s
   \<and> (fst (stopVisualizer s) = None) = (visualElements s \<noteq> None)
   \<and> stoppedStreams (snd (onend_simple (snd (onerror_simple kind s))))
       = stoppedStreams (snd (onerror_simple kind s))
   \<and> closedContexts (snd (onend_simple (snd (onerror_simple kind s))))
       = closedContexts (snd (onerror_simple kind s))
   \<and> fst (onend_simple (snd (onerror_simple kind s))) = fst (onerror_simple kind s)"
  by (cases "mediaStreamSource s"; cases "audioContext s"; cases "visualElements s")
     (simp_all add: stopVisualizer_def onend_simple_def onerror_simple_def setTranscript_def
        toggleMicButtonState_def Let_def)

section \<open>What the handlers do to the timers\<close>

lemma clearTimeout_timers:
  "timers (clearTimeout h s) = (case h of None \<Rightarrow> timers s | Some t \<Rightarrow> removeAll t (timers s))"
  by (simp add: clearTimeout_def split: option.split)

lemma speakText_timers [simp]:
  "timers (speakText t s) = timers s" "sttPauseTimer (speakText t s) = sttPauseTimer s"
  by (simp_all add: speakText_def Let_def)

lemma setTranscript_timers [simp]:
  "timers (setTranscript t s) = timers s" "sttPauseTimer (setTranscript t s) = sttPauseTimer s"
  by (simp_all add: setTranscript_def)

lemma toggleMicButtonState_timers [simp]:
  "timers (toggleMicButtonState b s) = timers s"
  "sttPauseTimer (toggleMicButtonState b s) = sttPauseTimer s"
  by (simp_all add: toggleMicButtonState_def)

lemma sendToBackend_timers [simp]:
  "timers (sendToBackend t s) = timers s" "sttPauseTimer (sendToBackend t s) = sttPauseTimer s"
  by (simp_all add: sendToBackend_def Let_def)

lemma sendToBackend_resume_timers [simp]:
  "timers (sendToBackend_resume out s) = timers s"
  "sttPauseTimer (sendToBackend_resume out s) = sttPauseTimer s"
  by (simp_all add: sendToBackend_resume_def sendToBackend_catch_def
        split: fetch_outcome.split body.split option.split)

lemma stopVisualizer_timers [simp]:
  "timers (snd (stopVisualizer s)) = timers s"
  "sttPauseTimer (snd (stopVisualizer s)) = sttPauseTimer s"
  by (cases "mediaStreamSource s"; cases "audioContext s"; cases "visualElements s";
      simp add: stopVisualizer_def Let_def)+

lemma startVisualizer_timers [simp]:
  "timers (startVisualizer s) = timers s" "sttPauseTimer (startVisualizer s) = sttPauseTimer s"
  by (simp_all add: startVisualizer_def createDOMElementsForVisualizer_def Let_def)

lemma startVisualizer_catch_timers [simp]:
  "timers (startVisualizer_catch name s) = timers s"
  "sttPauseTimer (startVisualizer_catch name s) = sttPauseTimer s"
  by (simp_all add: startVisualizer_catch_def processVisualizerError_def Let_def)

lemma startVisualizer_granted_timers [simp]:
  "timers (startVisualizer_granted k s) = timers s"
  "sttPauseTimer (startVisualizer_granted k s) = sttPauseTimer s"
  by (simp_all add: startVisualizer_granted_def split: option.split)

lemma report_timers [simp]:
  "timers (report r) = timers (snd r)" "sttPauseTimer (report r) = sttPauseTimer (snd r)"
  by (cases r; cases "fst r"; simp add: report_def)+

lemma processFrameForVisualizer_timers [simp]:
  "timers (snd (processFrameForVisualizer d s)) = timers s"
  "sttPauseTimer (snd (processFrameForVisualizer d s)) = sttPauseTimer s"
  by (simp_all add: processFrameForVisualizer_def split: option.split prod.split)

lemma renderVisualizerFrame_timers [simp]:
  "timers (snd (renderVisualizerFrame d s)) = timers s"
  "sttPauseTimer (snd (renderVisualizerFrame d s)) = sttPauseTimer s"
proof -
  obtain e s1 where p: "processFrameForVisualizer d s = (e, s1)"
    by (cases "processFrameForVisualizer d s")
  have "timers s1 = timers s" "sttPauseTimer s1 = sttPauseTimer s"
    using processFrameForVisualizer_timers [of d s] p by simp_all
  then show "timers (snd (renderVisualizerFrame d s)) = timers s"
    "sttPauseTimer (snd (renderVisualizerFrame d s)) = sttPauseTimer s"
    using p by (simp_all add: renderVisualizerFrame_def split: option.split)
qed

lemma toggle_timers [simp]:
  "timers (snd (toggleSTTAndVisualizer s)) = timers s"
  "sttPauseTimer (snd (toggleSTTAndVisualizer s)) = sttPauseTimer s"
  by (simp_all add: toggleSTTAndVisualizer_def recognition_stop_def recognition_start_def)

lemma onerror_timers [simp]:
  "timers (snd (onerror kind s)) = timers (clearTimeout (sttPauseTimer s) s)"
  "sttPauseTimer (snd (onerror kind s)) = sttPauseTimer s"
proof -
  let ?s2 = "toggleMicButtonState False
               ((clearTimeout (sttPauseTimer s) s)\<lparr>isListeningForSTT := False\<rparr>)"
  obtain e s3 where p: "stopVisualizer ?s2 = (e, s3)" by (cases "stopVisualizer ?s2")
  have a: "timers s3 = timers ?s2" "sttPauseTimer s3 = sttPauseTimer ?s2"
    using stopVisualizer_timers [of ?s2] p by simp_all
  have b: "sttPauseTimer (clearTimeout (sttPauseTimer s) s) = sttPauseTimer s"
    by (simp add: clearTimeout_def split: option.split)
  show "timers (snd (onerror kind s)) = timers (clearTimeout (sttPauseTimer s) s)"
    "sttPauseTimer (snd (onerror kind s)) = sttPauseTimer s"
    using p a b by (simp_all add: onerror_def Let_def split: option.split)
qed

lemma onend_timers [simp]:
  "timers (onend s) = timers (clearTimeout (sttPauseTimer s) s)"
  "sttPauseTimer (onend s) = sttPauseTimer s"
  by (simp_all add: onend_def clearTimeout_def Let_def split: option.split)

lemma pauseTimerFired_timers [simp]:
  "timers (pauseTimerFired s) = timers s" "sttPauseTimer (pauseTimerFired s) = sttPauseTimer s"
  by (simp_all add: pauseTimerFired_def Let_def)

lemma onstart_timers [simp]:
  "timers (snd (onstart s)) = timers (clearTimeout (sttPauseTimer s) s)"
  "sttPauseTimer (snd (onstart s)) = sttPauseTimer s"
  by (simp_all add: onstart_def clearTimeout_def setTranscript_def toggleMicButtonState_def
        Let_def split: option.split)

lemma onresult_timers:
  "timers (onresult ev s) = timers (clearTimeout (sttPauseTimer s) s) @ [nextTimer s]"
  "sttPauseTimer (onresult ev s) = Some (nextTimer s)"
  by (simp_all add: onresult_def clearTimeout_def setTimeout_def setTranscript_def Let_def
        split: option.split prod.split)

lemma oneTimer_cleared:
  "oneTimer s \<Longrightarrow>
     (case sttPauseTimer s of None \<Rightarrow> timers s | Some t \<Rightarrow> removeAll t (timers s)) = []"
  by (auto simp: oneTimer_def split: list.splits option.splits)

lemma oneTimer_fire:
  assumes "oneTimer s"
  shows "oneTimer (fire e s)"
proof -
  note c = oneTimer_cleared [OF assms]
  have r: "\<And>t. removeAll t (timers s) = [] \<or> removeAll t (timers s) = timers s"
    using assms by (auto simp: oneTimer_def split: list.splits)
  show ?thesis
  proof (cases e)
    case (TimerFired t)
    then show ?thesis using assms r [of t]
      by (auto simp: oneTimer_def split: list.splits)
  next
    case (SpeechResult ev)
    then show ?thesis using assms c
      by (auto simp: oneTimer_def onresult_timers clearTimeout_timers split: list.splits)
  qed (use assms c in \<open>auto simp: oneTimer_def clearTimeout_timers Let_def
         split: list.splits option.splits\<close>)
qed

lemma oneTimer_init: "oneTimer (init n tts)"
  by (simp add: oneTimer_def init_def)

lemma reachable_oneTimer: "reachable n tts s \<Longrightarrow> oneTimer s"
  by (induction rule: reachable.induct) (simp_all add: oneTimer_init oneTimer_fire)

lemma run_append: "run (es @ es') s = run es' (run es s)"
  by (induction es arbitrary: s) auto

lemma reachable_run: "reachable n tts s \<Longrightarrow> reachable n tts (run es s)"
  by (induction es arbitrary: s) (auto intro: reachable.step)

section \<open>The pause timer\<close>

text \<open>
  C9. Every result event, final or not, cancels the pending pause timer before it sets
  a new one: in every reachable state at most one timer is in the table, it is the one
  \<^verbatim>\<open>sttPauseTimer\<close> names, after a result event exactly the new timer is pending, and
  when a timer fires none is left to fire again.
\<close>

theorem one_pause_timer:
  "reachable n tts s \<Longrightarrow>
     length (timers s) \<le> 1
     \<and> (\<forall>t\<in>set (timers s). sttPauseTimer s = Some t \<and> timers (fire (TimerFired t) s) = [])
     \<and> timers (onresult ev s) = [nextTimer s]
     \<and> sttPauseTimer (onresult ev s) = Some (nextTimer s)"
proof -
  assume "reachable n tts s"
  then have o: "oneTimer s" by (rule reachable_oneTimer)
  note c = oneTimer_cleared [OF o]
  have "length (timers s) \<le> 1" using o by (auto simp: oneTimer_def split: list.splits)
  moreover have
    "\<forall>t\<in>set (timers s). sttPauseTimer s = Some t \<and> timers (fire (TimerFired t) s) = []"
    using o by (auto simp: oneTimer_def split: list.splits)
  moreover have "timers (onresult ev s) = [nextTimer s]"
    using c by (simp add: onresult_timers clearTimeout_timers)
  ultimately show ?thesis by (simp add: onresult_timers)
qed

theorem one_pause_timer_witness:
  "reachable 32 True (run (Click # SpeechStart # map SpeechResult helloEvents) (init 32 True))
   \<and> timers (run (Click # SpeechStart # map SpeechResult helloEvents) (init 32 True)) = [2]
   \<and> timers (fire (TimerFired 2)
        (run (Click # SpeechStart # map SpeechResult helloEvents) (init 32 True))) = []
   \<and> timers (onresult (hd helloEvents)
        (run (Click # SpeechStart # map SpeechResult helloEvents) (init 32 True))) = [3]"
proof -
  let ?s = "run (Click # SpeechStart # map SpeechResult helloEvents) (init 32 True)"
  have r: "reachable 32 True ?s" by (rule reachable_run [OF reachable.start])
  have t: "timers ?s = [2]" "nextTimer ?s = 3"
    by (simp_all add: page_defs helloEvents_def Let_def)
  show ?thesis using r one_pause_timer [OF r, of "hd helloEvents"] t by simp
qed

section \<open>Flushing at the end of a session\<close>

lemma sendToBackend_sends:
  "trim t \<noteq> [] \<Longrightarrow>
     sendToBackend t s =
       s\<lparr>transcriptDisplay := Txt ''Thinking...'', requests := requests s @ [t],
         inFlight := inFlight s + 1\<rparr>"
  by (auto simp: sendToBackend_def setTranscript_def trim_def)

lemma onend_sends:
  "trim (sttFinalTranscript s) \<noteq> [] \<Longrightarrow>
     requests (onend s) = requests s @ [trim (sttFinalTranscript s)]
     \<and> inFlight (onend s) = inFlight s + 1
     \<and> sttFinalTranscript (onend s) = []
     \<and> \<not> isListeningForSTT (onend s)"
  by (simp add: onend_def clearTimeout_def sendToBackend_sends trim_trim Let_def
        split: option.split)

text \<open>
  C4. When the engine's \<^verbatim>\<open>onend\<close> runs while the buffer, trimmed, is not empty, the
  trimmed text is sent to the backend and the buffer is empty afterwards: the last
  utterance before a stop is not dropped. The same holds for the end event of a
  session, whatever timer was pending.
\<close>

theorem onend_flushes_buffer:
  "trim (sttFinalTranscript s) \<noteq> [] \<Longrightarrow>
     requests (onend s) = requests s @ [trim (sttFinalTranscript s)]
     \<and> inFlight (onend s) = inFlight s + 1
     \<and> sttFinalTranscript (onend s) = []
     \<and> \<not> isListeningForSTT (onend s)
     \<and> (engine s \<noteq> Idle \<longrightarrow>
          requests (fire SpeechEnd s) = requests s @ [trim (sttFinalTranscript s)]
          \<and> sttFinalTranscript (fire SpeechEnd s) = []
          \<and> timers (fire SpeechEnd s)
              = (case sttPauseTimer s of None \<Rightarrow> timers s | Some t \<Rightarrow> removeAll t (timers s)))"
  using onend_sends [of s] onend_sends [of "s\<lparr>engine := Idle\<rparr>"]
  by (simp add: clearTimeout_timers split: option.split)

theorem onend_flushes_buffer_witness:
  "requests (onend ((init 32 True)\<lparr>sttFinalTranscript := ''left over ''\<rparr>)) = [''left over'']
   \<and> sttFinalTranscript (onend ((init 32 True)\<lparr>sttFinalTranscript := ''left over ''\<rparr>)) = []"
  using onend_flushes_buffer [of "(init 32 True)\<lparr>sttFinalTranscript := ''left over ''\<rparr>"]
  by (simp add: trim_def isWhiteSpace_def init_def speakText_def setTranscript_def)

section \<open>The utterance sent after a pause\<close>

lemma onresult_fields:
  "sttFinalTranscript (onresult ev s) = sttFinalTranscript s @ appended ev"
  "requests (onresult ev s) = requests s"
  "engine (onresult ev s) = engine s"
  by (cases "sttPauseTimer s";
      simp add: onresult_def appended_def finalText_def fragments_def clearTimeout_def
        setTimeout_def setTranscript_def Let_def split: prod.split)+

lemma run_results:
  "engine s \<noteq> Idle \<Longrightarrow>
     sttFinalTranscript (run (map SpeechResult evs) s)
       = sttFinalTranscript s @ concat (map appended evs)
     \<and> requests (run (map SpeechResult evs) s) = requests s
     \<and> engine (run (map SpeechResult evs) s) = engine s"
  by (induction evs arbitrary: s) (simp_all add: onresult_fields)

lemma run_results_timer:
  "engine s \<noteq> Idle \<Longrightarrow> evs \<noteq> [] \<Longrightarrow>
     (\<exists>t. sttPauseTimer (run (map SpeechResult evs) s) = Some t
          \<and> t \<in> set (timers (run (map SpeechResult evs) s)))"
proof (induction evs arbitrary: s rule: rev_induct)
  case Nil
  then show ?case by simp
next
  case (snoc ev evs)
  have e: "engine (run (map SpeechResult evs) s) \<noteq> Idle"
    using run_results [OF snoc.prems(1), where evs = evs] snoc.prems(1) by simp
  show ?case using e by (simp add: run_append onresult_timers)
qed

lemma concat_appended:
  "concat (map appended evs) =
     concat (map (\<lambda>f. f @ '' '') (filter (\<lambda>f. f \<noteq> []) (map finalText evs)))"
  by (induction evs) (simp_all add: appended_def)

lemma trim_buffer: "trim (concat (map appended evs)) = utterance evs"
  by (simp add: concat_appended trim_concat_spaced utterance_def)

lemma pauseTimerFired_fields:
  "requests (pauseTimerFired s) =
     requests s @ (if trim (sttFinalTranscript s) = [] then [] else [trim (sttFinalTranscript s)])"
  "sttFinalTranscript (pauseTimerFired s) = []"
  by (simp_all add: pauseTimerFired_def sendToBackend_sends trim_trim Let_def)

text \<open>
  Where every event finalises at most one fragment and no final text is empty, the
  text the code builds is the one the specification words.
\<close>

lemma utterance_spec:
  assumes "\<forall>ev\<in>set evs. length (filter isFinal (fragments ev)) \<le> 1
             \<and> (\<forall>r\<in>set (fragments ev). isFinal r \<longrightarrow> transcript r \<noteq> [])"
  shows "utterance evs = specUtterance evs"
proof -
  have "filter (\<lambda>f. f \<noteq> []) (map finalText evs)
          = map transcript (filter isFinal (concat (map fragments evs)))"
    using assms
  proof (induction evs)
    case Nil
    then show ?case by simp
  next
    case (Cons ev evs)
    have one: "length (filter isFinal (fragments ev)) \<le> 1"
      and ne: "\<forall>r\<in>set (filter isFinal (fragments ev)). transcript r \<noteq> []"
      using Cons.prems by auto
    show ?case
    proof (cases "filter isFinal (fragments ev)")
      case Nil
      then show ?thesis using Cons by (simp add: finalText_eq)
    next
      case (Cons r rs)
      then have "rs = []" using one by simp
      then show ?thesis using Cons ne Cons.IH Cons.prems by (simp add: finalText_eq)
    qed
  qed
  then show ?thesis by (simp add: utterance_def specUtterance_def)
qed

text \<open>
  C1, as the specification states it: the utterance sent is the text of the final
  fragments, joined by spaces and trimmed. An event that finalises two fragments
  appends them with nothing between them (and an event whose final text is empty
  appends nothing, not even a space), so the text sent is \<open>ab\<close> where the
  specification says \<open>a b\<close>.
\<close>

theorem spec_utterance_counterexample:
  "requests (run [SpeechResult twoFinals, TimerFired 1] (run [Click, SpeechStart] (init 32 True)))
     = [''ab'']
   \<and> specUtterance [twoFinals] = ''a b''"
  by (simp add: page_defs twoFinals_def specUtterance_def fragments_def Let_def)

text \<open>
  C1, amended. After result events that start from an empty buffer, the pause timer
  that is pending fires and sends, once, the final texts of the events, each event's
  final fragments concatenated, the events that have final text joined by spaces, the
  whole trimmed; nothing is sent when that is empty. The buffer is empty afterwards
  and the timer is gone. For the interim \<open>hello\<close> followed by the final
  \<open>hello world\<close> exactly \<open>hello world\<close> is sent.
\<close>

theorem pause_dispatch:
  assumes "engine s \<noteq> Idle" and "sttFinalTranscript s = []" and "evs \<noteq> []"
  shows "\<exists>t. sttPauseTimer (run (map SpeechResult evs) s) = Some t
           \<and> requests (run (map SpeechResult evs @ [TimerFired t]) s)
               = requests s @ (if utterance evs = [] then [] else [utterance evs])
           \<and> sttFinalTranscript (run (map SpeechResult evs @ [TimerFired t]) s) = []
           \<and> t \<notin> set (timers (run (map SpeechResult evs @ [TimerFired t]) s))"
proof -
  let ?s1 = "run (map SpeechResult evs) s"
  obtain t where t: "sttPauseTimer ?s1 = Some t" "t \<in> set (timers ?s1)"
    using run_results_timer [OF assms(1) assms(3)] by blast
  have b: "sttFinalTranscript ?s1 = concat (map appended evs)" "requests ?s1 = requests s"
    using run_results [OF assms(1), where evs = evs] assms(2) by simp_all
  show ?thesis using t b
    by (simp add: run_append pauseTimerFired_fields trim_buffer)
qed

theorem pause_dispatch_witness:
  "requests (run (map SpeechResult helloEvents @ [TimerFired 2])
      (run [Click, SpeechStart] (init 32 True))) = [''hello world'']
   \<and> timers (run (map SpeechResult helloEvents @ [TimerFired 2])
      (run [Click, SpeechStart] (init 32 True))) = []"
proof -
  let ?s = "run [Click, SpeechStart] (init 32 True)"
  have a: "engine ?s \<noteq> Idle" "sttFinalTranscript ?s = []" "requests ?s = []"
    "sttPauseTimer ?s = None" "timers ?s = []" "nextTimer ?s = 1"
    by (simp_all add: page_defs Let_def)
  have h: "helloEvents \<noteq> []" by (simp add: helloEvents_def)
  have u: "utterance helloEvents = ''hello world''"
    by (simp add: utterance_def helloEvents_def finalText_def fragments_def trim_def
          isWhiteSpace_def)
  have t: "sttPauseTimer (run (map SpeechResult helloEvents) ?s) = Some 2"
    "timers (run (map SpeechResult helloEvents) ?s) = [2]"
    using a
    by (simp_all add: helloEvents_def onresult_def setTimeout_def clearTimeout_def
          setTranscript_def Let_def split: prod.split)
  from pause_dispatch [OF a(1) a(2) h] t(1) u a(3)
  have "requests (run (map SpeechResult helloEvents @ [TimerFired 2]) ?s) = [''hello world'']"
    by simp
  moreover have "timers (run (map SpeechResult helloEvents @ [TimerFired 2]) ?s) = []"
    using t by (simp add: run_append)
  ultimately show ?thesis by simp
qed

section \<open>The start of a session\<close>

text \<open>
  C10. When \<^verbatim>\<open>onstart\<close> runs, the buffer is emptied, the pending pause timer is
  cancelled (in a reachable state no timer is left at all) and speech in progress is
  cancelled; the buffer built by the result events of the session then holds text of
  these events only.
\<close>

theorem onstart_resets:
  "sttFinalTranscript (snd (onstart s)) = []
   \<and> (\<forall>t. sttPauseTimer s = Some t \<longrightarrow> t \<notin> set (timers (snd (onstart s))))
   \<and> (ttsSupported s \<longrightarrow> ttsQueue (snd (onstart s)) = [])
   \<and> (reachable n tts s \<longrightarrow> timers (snd (onstart s)) = [])
   \<and> (engine s \<noteq> Idle \<longrightarrow>
        sttFinalTranscript (run (map SpeechResult evs) (snd (onstart s)))
          = concat (map appended evs))"
proof -
  have b: "sttFinalTranscript (snd (onstart s)) = []" "engine (snd (onstart s)) = engine s"
    by (simp_all add: onstart_def clearTimeout_def setTranscript_def toggleMicButtonState_def
          Let_def split: option.split)
  have q: "ttsSupported s \<longrightarrow> ttsQueue (snd (onstart s)) = []"
    by (simp add: onstart_def clearTimeout_def setTranscript_def toggleMicButtonState_def
          Let_def split: option.split)
  have c: "\<forall>t. sttPauseTimer s = Some t \<longrightarrow> t \<notin> set (timers (snd (onstart s)))"
    by (simp add: clearTimeout_timers)
  have r: "reachable n tts s \<longrightarrow> timers (snd (onstart s)) = []"
    using oneTimer_cleared [OF reachable_oneTimer] by (auto simp: clearTimeout_timers)
  have e: "engine s \<noteq> Idle \<longrightarrow>
        sttFinalTranscript (run (map SpeechResult evs) (snd (onstart s)))
          = concat (map appended evs)"
    using run_results [of "snd (onstart s)" evs] b by simp
  show ?thesis using b q c r e by blast
qed

theorem onstart_resets_witness:
  "sttFinalTranscript (run (Click # SpeechStart # map SpeechResult helloEvents) (init 32 True))
     = ''hello world ''
   \<and> timers (run (Click # SpeechStart # map SpeechResult helloEvents) (init 32 True)) = [2]
   \<and> sttFinalTranscript (snd (onstart
        (run (Click # SpeechStart # map SpeechResult helloEvents) (init 32 True)))) = []
   \<and> timers (snd (onstart
        (run (Click # SpeechStart # map SpeechResult helloEvents) (init 32 True)))) = []
   \<and> ttsQueue (snd (onstart
        (run (Click # SpeechStart # map SpeechResult helloEvents) (init 32 True)))) = []"
proof -
  let ?s = "run (Click # SpeechStart # map SpeechResult helloEvents) (init 32 True)"
  have r: "reachable 32 True ?s" by (rule reachable_run [OF reachable.start])
  have t: "timers ?s = [2]" "sttFinalTranscript ?s = ''hello world ''" "ttsSupported ?s"
    by (simp_all add: page_defs helloEvents_def Let_def)
  show ?thesis using r onstart_resets [of ?s 32 True "[]"] t by simp
qed

section \<open>The bars\<close>

lemma processBars_length: "length (snd (processBars d is elems)) = length elems"
  by (induction "is" arbitrary: elems) (simp_all add: Let_def)

lemma barsInv_cong:
  "visualValueCount s' = visualValueCount s \<Longrightarrow> visualElements s' = visualElements s \<Longrightarrow>
   isVisualizerActive s' = isVisualizerActive s \<Longrightarrow> pendingMic s' = pendingMic s \<Longrightarrow>
   barsInv n s' = barsInv n s"
  by (simp add: barsInv_def)

lemma barsInv_report:
  "barsInv n (snd r) \<Longrightarrow> barsInv n (report r)"
proof (cases r)
  case (Pair e s)
  assume "barsInv n (snd r)"
  moreover have "barsInv n (report (e, s)) = barsInv n s"
    by (rule barsInv_cong) (simp_all add: report_def split: option.split)
  ultimately show ?thesis using Pair by simp
qed

lemma barsInv_speakText [simp]: "barsInv n (speakText t s) = barsInv n s"
  by (rule barsInv_cong) (simp_all add: speakText_def Let_def)

lemma barsInv_setTranscript [simp]: "barsInv n (setTranscript t s) = barsInv n s"
  by (rule barsInv_cong) (simp_all add: setTranscript_def)

lemma barsInv_toggleMic [simp]: "barsInv n (toggleMicButtonState b s) = barsInv n s"
  by (rule barsInv_cong) (simp_all add: toggleMicButtonState_def)

lemma barsInv_clearTimeout [simp]: "barsInv n (clearTimeout h s) = barsInv n s"
  by (rule barsInv_cong) (simp_all add: clearTimeout_def split: option.split)

lemma barsInv_stopVisualizer: "barsInv n s \<Longrightarrow> barsInv n (snd (stopVisualizer s))"
  by (cases "mediaStreamSource s"; cases "audioContext s"; cases "visualElements s")
     (auto simp: barsInv_def stopVisualizer_def Let_def split: if_splits)

lemma barsInv_startVisualizer: "barsInv n s \<Longrightarrow> barsInv n (startVisualizer s)"
  by (auto simp: barsInv_def startVisualizer_def createDOMElementsForVisualizer_def Let_def
        split: if_splits)

lemma barsInv_toggle: "barsInv n s \<Longrightarrow> barsInv n (snd (toggleSTTAndVisualizer s))"
proof -
  assume i: "barsInv n s"
  have a: "barsInv n (recognition_stop s) = barsInv n s"
    by (rule barsInv_cong) (simp_all add: recognition_stop_def)
  have b: "barsInv n (snd (recognition_start (startVisualizer s))) = barsInv n (startVisualizer s)"
    by (rule barsInv_cong) (simp_all add: recognition_start_def)
  show ?thesis using i a b barsInv_startVisualizer [OF i]
    by (simp add: toggleSTTAndVisualizer_def)
qed

lemma barsInv_onstart: "barsInv n (snd (onstart s)) = barsInv n s"
  by (rule barsInv_cong)
     (simp_all add: onstart_def clearTimeout_def setTranscript_def toggleMicButtonState_def
        Let_def split: option.split)

lemma barsInv_onresult: "barsInv n (onresult ev s) = barsInv n s"
  by (rule barsInv_cong)
     (simp_all add: onresult_def clearTimeout_def setTranscript_def setTimeout_def Let_def
        split: prod.split option.split)

lemma barsInv_sendToBackend [simp]: "barsInv n (sendToBackend t s) = barsInv n s"
  by (rule barsInv_cong) (simp_all add: sendToBackend_def setTranscript_def Let_def)

lemma barsInv_onend: "barsInv n (onend s) = barsInv n s"
proof -
  have "barsInv n (s\<lparr>isListeningForSTT := False\<rparr>) = barsInv n s"
    by (rule barsInv_cong) simp_all
  then show ?thesis
    by (simp add: onend_def Let_def barsInv_cong [of "s'\<lparr>sttFinalTranscript := []\<rparr>" s' for s'])
qed

lemma barsInv_pauseTimerFired: "barsInv n (pauseTimerFired s) = barsInv n s"
  by (simp add: pauseTimerFired_def Let_def barsInv_cong [of "s'\<lparr>sttFinalTranscript := []\<rparr>" s' for s'])

lemma barsInv_onerror: "barsInv n s \<Longrightarrow> barsInv n (snd (onerror kind s))"
proof -
  assume i: "barsInv n s"
  let ?s2 = "toggleMicButtonState False
               ((clearTimeout (sttPauseTimer s) s)\<lparr>isListeningForSTT := False\<rparr>)"
  have "barsInv n ((clearTimeout (sttPauseTimer s) s)\<lparr>isListeningForSTT := False\<rparr>)
          = barsInv n (clearTimeout (sttPauseTimer s) s)"
    by (rule barsInv_cong) simp_all
  then have "barsInv n ?s2" using i by simp
  then have "barsInv n (snd (stopVisualizer ?s2))" by (rule barsInv_stopVisualizer)
  then show ?thesis
    by (cases "stopVisualizer ?s2"; cases "fst (stopVisualizer ?s2)")
       (simp_all add: onerror_def Let_def)
qed

lemma barsInv_catch:
  "barsInv n s \<Longrightarrow> visualElements s \<noteq> None \<Longrightarrow> barsInv n (startVisualizer_catch name s)"
  by (auto simp: barsInv_def startVisualizer_catch_def processVisualizerError_def
        speakText_def setTranscript_def toggleMicButtonState_def Let_def split: if_splits)

lemma barsInv_granted:
  "barsInv n s \<Longrightarrow> visualElements s \<noteq> None \<Longrightarrow> barsInv n (startVisualizer_granted k s)"
  using barsInv_catch [of n s "''TypeError''"]
  by (cases "audioContext s") (auto simp: barsInv_def startVisualizer_granted_def split: if_splits)

lemma barsInv_resume: "barsInv n (sendToBackend_resume out s) = barsInv n s"
  by (simp add: sendToBackend_resume_def sendToBackend_catch_def
        split: fetch_outcome.split body.split option.split)

lemma barsInv_frame: "barsInv n s \<Longrightarrow> barsInv n (snd (renderVisualizerFrame d s))"
  using processBars_length [of d "[0..<visualValueCount s]" "the (visualElements s)"]
  by (cases "visualElements s")
     (auto simp: barsInv_def renderVisualizerFrame_def processFrameForVisualizer_def
        split: prod.split option.split if_splits)

lemma barsInv_fire:
  assumes "barsInv n s"
  shows "barsInv n (fire e s)"
proof (cases e)
  case Click
  then show ?thesis using assms by (simp add: barsInv_report barsInv_toggle)
next
  case SpeechStart
  then show ?thesis using assms by (simp add: barsInv_report barsInv_onstart)
next
  case (SpeechResult ev)
  then show ?thesis using assms by (simp add: barsInv_onresult)
next
  case (SpeechError kind)
  then show ?thesis using assms by (simp add: barsInv_report barsInv_onerror)
next
  case SpeechEnd
  have "barsInv n (s\<lparr>engine := Idle\<rparr>)" using assms by (auto simp: barsInv_def split: if_splits)
  then show ?thesis using SpeechEnd assms by (simp add: barsInv_onend)
next
  case (TimerFired t)
  have "barsInv n (s\<lparr>timers := removeAll t (timers s)\<rparr>)" using assms by (auto simp: barsInv_def split: if_splits)
  then show ?thesis using TimerFired assms by (simp add: barsInv_pauseTimerFired)
next
  case MicGranted
  show ?thesis
  proof (cases "pendingMic s = 0")
    case True
    then show ?thesis using MicGranted assms by simp
  next
    case False
    let ?s1 = "s\<lparr>pendingMic := pendingMic s - 1, nextStream := nextStream s + 1,
                liveStreams := liveStreams s @ [nextStream s]\<rparr>"
    have "barsInv n ?s1 \<and> visualElements ?s1 \<noteq> None"
      using assms False by (auto simp: barsInv_def split: if_splits)
    then show ?thesis using MicGranted False by (simp add: barsInv_granted Let_def)
  qed
next
  case (MicDenied name)
  show ?thesis
  proof (cases "pendingMic s = 0")
    case True
    then show ?thesis using MicDenied assms by simp
  next
    case False
    let ?s1 = "s\<lparr>pendingMic := pendingMic s - 1\<rparr>"
    have "barsInv n ?s1 \<and> visualElements ?s1 \<noteq> None"
      using assms False by (auto simp: barsInv_def split: if_splits)
    then show ?thesis using MicDenied False by (simp add: barsInv_catch)
  qed
next
  case (AnimationFrame d)
  have "barsInv n (s\<lparr>renderLoops := renderLoops s - 1\<rparr>)" using assms by (auto simp: barsInv_def split: if_splits)
  then show ?thesis using AnimationFrame assms by (simp add: barsInv_report barsInv_frame)
next
  case (FetchSettled out)
  have "barsInv n (s\<lparr>inFlight := inFlight s - 1\<rparr>)" using assms by (auto simp: barsInv_def split: if_splits)
  then show ?thesis using FetchSettled assms by (simp add: barsInv_resume)
next
  case UtteranceEnded
  then show ?thesis using assms by (auto simp: barsInv_def split: if_splits)
qed

lemma reachable_barsInv: "reachable n tts s \<Longrightarrow> barsInv n s"
proof (induction rule: reachable.induct)
  case (start n tts)
  show ?case by (simp add: barsInv_def init_def speakText_def setTranscript_def)
next
  case (step n tts s e)
  then show ?case by (simp add: barsInv_fire)
qed

lemma processBars_Cons:
  "processBars data (i # is) elems =
     (if i < length elems then processBars data is (elems[i := drawnBar data i])
      else (Some TypeError, elems))"
  by (simp add: drawnBar_def Let_def)

lemma processBars_upt:
  "k \<le> n \<Longrightarrow> n \<le> length elems \<Longrightarrow>
     processBars data [k..<n] elems
       = (None, take k elems @ map (drawnBar data) [k..<n] @ drop n elems)"
proof (induction "n - k" arbitrary: k elems)
  case 0
  then show ?case by simp
next
  case (Suc d)
  then have lt: "k < n" by simp
  have u: "[k..<n] = k # [Suc k..<n]" using lt by (simp add: upt_conv_Cons)
  let ?e = "elems[k := drawnBar data k]"
  have ih: "processBars data [Suc k..<n] ?e
      = (None, take (Suc k) ?e @ map (drawnBar data) [Suc k..<n] @ drop n ?e)"
    using Suc.hyps(1) [of "Suc k" ?e] Suc.hyps(2) Suc.prems by simp
  have t: "take (Suc k) ?e = take k elems @ [drawnBar data k]"
    using lt Suc.prems by (simp add: take_Suc_conv_app_nth)
  have d: "drop n ?e = drop n elems" using lt by simp
  show ?case using lt Suc.prems
    by (simp add: u processBars_Cons ih t d del: processBars.simps)
qed

lemma processFrame_draws:
  assumes "visualElements s = Some elems" and "length elems = visualValueCount s"
  shows "processFrameForVisualizer data s
     = (None, s\<lparr>visualElements := Some (map (drawnBar data) [0..<visualValueCount s])\<rparr>)"
  using assms processBars_upt [of 0 "visualValueCount s" elems data]
  by (simp add: processFrameForVisualizer_def)

lemma drawnBar_scaled:
  "i < 32 \<Longrightarrow> length data = 32 \<Longrightarrow> drawnBar data i = scaledBar data i"
  by (auto simp: drawnBar_def scaledBar_def sampleValue_def dataMap_closed Let_def)

lemma scaledBar_zero:
  "i < 32 \<Longrightarrow> scaledBar (replicate 32 0) i = \<lparr>transform = Num 0, opacity = Num (1 / 4)\<rparr>"
  by (auto simp: scaledBar_def dataMap_closed Let_def)

lemma frame_event:
  assumes "visualElements s = Some elems" and "length elems = visualValueCount s"
    and "isVisualizerActive s"
  shows "visualElements (snd (renderVisualizerFrame data (s\<lparr>renderLoops := r\<rparr>)))
           = Some (map (drawnBar data) [0..<visualValueCount s])
         \<and> fst (renderVisualizerFrame data (s\<lparr>renderLoops := r\<rparr>)) = None
         \<and> renderLoops (snd (renderVisualizerFrame data (s\<lparr>renderLoops := r\<rparr>))) = r + 1"
proof -
  have "processFrameForVisualizer data (s\<lparr>renderLoops := r\<rparr>)
     = (None, s\<lparr>renderLoops := r,
                visualElements := Some (map (drawnBar data) [0..<visualValueCount s])\<rparr>)"
    using processFrame_draws [of "s\<lparr>renderLoops := r\<rparr>" elems data] assms by simp
  then show ?thesis using assms(3) by (simp add: renderVisualizerFrame_def)
qed

text \<open>
  C7. In every reachable state with at most 32 bars, a frame rendered while the
  visualizer is active sets bar \<open>i\<close> to the scale (sample selected by the table) / 255
  and the opacity max(0.25, that value), raises nothing and schedules the next frame;
  a frame of zeros sets
  every bar to scale 0 and opacity 0.25. Stopping the visualizer sets every bar to
  scale 0 and opacity 0, and so does the frame that runs once the visualizer is
  inactive, which does not schedule another one.
\<close>

theorem frame_draws_bars:
  assumes "reachable n tts s" and "n \<le> 32" and "length data = 32"
  shows "(isVisualizerActive s \<longrightarrow>
            fst (renderVisualizerFrame data s) = None
          \<and> visualElements (snd (renderVisualizerFrame data s)) = Some (map (scaledBar data) [0..<n])
          \<and> visualElements (snd (renderVisualizerFrame (replicate 32 0) s))
              = Some (replicate n \<lparr>transform = Num 0, opacity = Num (1 / 4)\<rparr>)
          \<and> visualElements (snd (stopVisualizer s)) = Some (replicate n hiddenBar)
          \<and> \<not> isVisualizerActive (snd (stopVisualizer s)))
       \<and> (isVisualizerActive s \<and> 0 < renderLoops s \<longrightarrow>
            visualElements (fire (AnimationFrame data) s) = Some (map (scaledBar data) [0..<n])
          \<and> renderLoops (fire (AnimationFrame data) s) = renderLoops s
          \<and> uncaught (fire (AnimationFrame data) s) = uncaught s)
       \<and> (\<not> isVisualizerActive s \<and> visualElements s \<noteq> None \<longrightarrow>
            visualElements (snd (renderVisualizerFrame data s)) = Some (replicate n hiddenBar)
          \<and> renderLoops (snd (renderVisualizerFrame data s)) = renderLoops s)"
proof (cases "visualElements s")
  case None
  then show ?thesis using reachable_barsInv [OF assms(1)] by (simp add: barsInv_def)
next
  case (Some elems)
  have i: "visualValueCount s = n" "length elems = n"
    using reachable_barsInv [OF assms(1)] Some by (simp_all add: barsInv_def)
  have m: "map (\<lambda>elm. hiddenBar) elems = replicate n hiddenBar"
    using i by (simp add: map_replicate_const)
  have d: "\<And>data. length data = 32 \<Longrightarrow> map (drawnBar data) [0..<n] = map (scaledBar data) [0..<n]"
    using assms(2) by (simp add: drawnBar_scaled)
  have z: "map (scaledBar (replicate 32 0)) [0..<n] = replicate n \<lparr>transform = Num 0, opacity = Num (1 / 4)\<rparr>"
    by (rule nth_equalityI) (use assms(2) in \<open>simp_all add: scaledBar_zero\<close>)
  have f: "\<And>data. processFrameForVisualizer data s
     = (None, s\<lparr>visualElements := Some (map (drawnBar data) [0..<n])\<rparr>)"
    using processFrame_draws [OF Some] i by simp
  have a: "isVisualizerActive s \<longrightarrow>
            fst (renderVisualizerFrame data s) = None
          \<and> visualElements (snd (renderVisualizerFrame data s)) = Some (map (scaledBar data) [0..<n])
          \<and> visualElements (snd (renderVisualizerFrame (replicate 32 0) s))
              = Some (replicate n \<lparr>transform = Num 0, opacity = Num (1 / 4)\<rparr>)"
    using d [OF assms(3)] d [of "replicate 32 0"] z by (simp add: renderVisualizerFrame_def f)
  have b: "visualElements (snd (stopVisualizer s)) = Some (replicate n hiddenBar)
          \<and> \<not> isVisualizerActive (snd (stopVisualizer s))"
    using Some m
    by (cases "mediaStreamSource s"; cases "audioContext s")
       (simp_all add: stopVisualizer_def hiddenBar_def Let_def)
  have c: "\<not> isVisualizerActive s \<longrightarrow>
            visualElements (snd (renderVisualizerFrame data s)) = Some (replicate n hiddenBar)
          \<and> renderLoops (snd (renderVisualizerFrame data s)) = renderLoops s"
    using Some m by (simp add: renderVisualizerFrame_def hiddenBar_def)
  have e: "isVisualizerActive s \<and> 0 < renderLoops s \<longrightarrow>
            visualElements (fire (AnimationFrame data) s) = Some (map (scaledBar data) [0..<n])
          \<and> renderLoops (fire (AnimationFrame data) s) = renderLoops s
          \<and> uncaught (fire (AnimationFrame data) s) = uncaught s"
  proof
    assume h: "isVisualizerActive s \<and> 0 < renderLoops s"
    let ?r = "renderVisualizerFrame data (s\<lparr>renderLoops := renderLoops s - 1\<rparr>)"
    have k: "visualElements (snd ?r) = Some (map (drawnBar data) [0..<n])"
      "fst ?r = None" "renderLoops (snd ?r) = renderLoops s - 1 + 1"
      using frame_event [OF Some, of data "renderLoops s - 1"] i h by simp_all
    have u: "uncaught (snd ?r) = uncaught s"
      using processFrame_draws [of "s\<lparr>renderLoops := renderLoops s - 1\<rparr>" elems data] Some i h
      by (simp add: renderVisualizerFrame_def)
    have p: "report ?r = snd ?r" using k(2) by (cases ?r) (simp add: report_def)
    show "visualElements (fire (AnimationFrame data) s) = Some (map (scaledBar data) [0..<n])
          \<and> renderLoops (fire (AnimationFrame data) s) = renderLoops s
          \<and> uncaught (fire (AnimationFrame data) s) = uncaught s"
      using h k u p d [OF assms(3)] assms(3) by simp
  qed
  show ?thesis using a b c e by blast
qed

theorem frame_draws_bars_witness:
  "isVisualizerActive (run [Click, MicGranted] (init 32 True))
   \<and> visualElements (snd (renderVisualizerFrame (replicate 32 0)
        (run [Click, MicGranted] (init 32 True))))
       = Some (replicate 32 \<lparr>transform = Num 0, opacity = Num (1 / 4)\<rparr>)
   \<and> visualElements (snd (stopVisualizer (run [Click, MicGranted] (init 32 True))))
       = Some (replicate 32 hiddenBar)"
proof -
  let ?s = "run [Click, MicGranted] (init 32 True)"
  have r: "reachable 32 True ?s" by (rule reachable_run [OF reachable.start])
  have a: "isVisualizerActive ?s" by (simp add: page_defs Let_def)
  have l: "length (replicate 32 (0 :: byte)) = 32" by simp
  show ?thesis using a frame_draws_bars [OF r order_refl l] by blast
qed

section \<open>The reply of the backend\<close>

text \<open>
  C5. When the request fails in transport or the status is not 2xx, the fixed message
  \<open>could not connect\<close> is displayed and spoken; when a 2xx body has no \<^verbatim>\<open>response\<close>
  field, the distinct message \<open>no valid response\<close> is displayed and spoken; neither
  case touches the listening state, the engine, the visualizer, the buffer or the
  timers, and nothing is thrown.
\<close>

theorem backend_failures:
  "sendToBackend_resume NetworkError s = sendToBackend_catch s
   \<and> sendToBackend_resume (Response False b) s = sendToBackend_catch s
   \<and> transcriptDisplay (sendToBackend_catch s) = Txt ''Sorry, I couldn't connect to the AI.''
   \<and> (ttsSupported s \<longrightarrow>
        ttsQueue (sendToBackend_catch s) = [Txt ''Sorry, I couldn't connect to the AI.''])
   \<and> (getResponse result = None \<longrightarrow>
        transcriptDisplay (sendToBackend_resume (Response True (Parsed result)) s)
          = Txt ''Sorry, I didn't get a valid response.''
        \<and> (ttsSupported s \<longrightarrow>
             ttsQueue (sendToBackend_resume (Response True (Parsed result)) s)
               = [Txt ''Sorry, I didn't get a valid response.'']))
   \<and> isListeningForSTT (sendToBackend_resume outcome s) = isListeningForSTT s
   \<and> engine (sendToBackend_resume outcome s) = engine s
   \<and> isVisualizerActive (sendToBackend_resume outcome s) = isVisualizerActive s
   \<and> sttFinalTranscript (sendToBackend_resume outcome s) = sttFinalTranscript s
   \<and> timers (sendToBackend_resume outcome s) = timers s
   \<and> uncaught (sendToBackend_resume outcome s) = uncaught s"
  by (simp add: sendToBackend_resume_def sendToBackend_catch_def speakText_def setTranscript_def
        Let_def split: fetch_outcome.split body.split option.split)

theorem backend_failures_witness:
  "getResponse (JObj [(''answer'', JStr ''hi'')]) = None
   \<and> transcriptDisplay (sendToBackend_resume (Response True (Parsed (JObj [(''answer'', JStr ''hi'')])))
        (run [Click, SpeechStart] (init 32 True))) = Txt ''Sorry, I didn't get a valid response.''
   \<and> transcriptDisplay (sendToBackend_resume (Response False Malformed)
        (run [Click, SpeechStart] (init 32 True))) = Txt ''Sorry, I couldn't connect to the AI.''
   \<and> isListeningForSTT (sendToBackend_resume (Response False Malformed)
        (run [Click, SpeechStart] (init 32 True)))"
proof -
  let ?s = "run [Click, SpeechStart] (init 32 True)"
  have l: "isListeningForSTT ?s" by (simp add: page_defs Let_def)
  have g: "getResponse (JObj [(''answer'', JStr ''hi'')]) = None" by simp
  show ?thesis
    using backend_failures [of ?s Malformed "JObj [(''answer'', JStr ''hi'')]"
        "Response False Malformed"] l g
    by (simp add: page_defs Let_def)
qed

section \<open>Where a session is cleaned up\<close>

text \<open>
  C3, as the specification states it: stopping the capture, resetting the button and
  clearing the buffer all happen in the engine's \<^verbatim>\<open>onend\<close> and nowhere else. In the
  richer variant a session that ends leaves the stream live, the visualizer active and
  the button in its active state, while \<^verbatim>\<open>onerror\<close> stops the capture and resets the
  button before any \<^verbatim>\<open>onend\<close> has run.
\<close>

theorem cleanup_counterexample:
  "\<not> isListeningForSTT (run [Click, SpeechStart, MicGranted, SpeechEnd] (init 32 True))
   \<and> engine (run [Click, SpeechStart, MicGranted, SpeechEnd] (init 32 True)) = Idle
   \<and> liveStreams (run [Click, SpeechStart, MicGranted, SpeechEnd] (init 32 True)) = [0]
   \<and> isVisualizerActive (run [Click, SpeechStart, MicGranted, SpeechEnd] (init 32 True))
   \<and> buttonActive (run [Click, SpeechStart, MicGranted, SpeechEnd] (init 32 True))
   \<and> mainView (run [Click, SpeechStart, MicGranted, SpeechEnd] (init 32 True)) = ShowsBars
   \<and> engine (run [Click, SpeechStart, MicGranted, SpeechError ''no-speech''] (init 32 True))
       = Started
   \<and> liveStreams (run [Click, SpeechStart, MicGranted, SpeechError ''no-speech''] (init 32 True))
       = []
   \<and> stoppedStreams
        (run [Click, SpeechStart, MicGranted, SpeechError ''no-speech''] (init 32 True)) = [0]
   \<and> \<not> isVisualizerActive
        (run [Click, SpeechStart, MicGranted, SpeechError ''no-speech''] (init 32 True))
   \<and> \<not> buttonActive
        (run [Click, SpeechStart, MicGranted, SpeechError ''no-speech''] (init 32 True))"
  by (simp add: page_defs Let_def)

text \<open>
  C3, amended. \<^verbatim>\<open>toggleSTTAndVisualizer\<close> cleans nothing up inline: while listening
  it changes the state of the engine only. In the richer variant \<^verbatim>\<open>onend\<close> clears the
  listening flag, the pause timer and the buffer and leaves the capture, the bars and
  the button as they are; \<^verbatim>\<open>onerror\<close> resets the button and stops the capture and
  leaves the buffer. In the simpler variant \<^verbatim>\<open>onend\<close> and \<^verbatim>\<open>onerror\<close> both reset the button
  and stop the capture.
\<close>

theorem cleanup_paths:
  "(isListeningForSTT s \<longrightarrow>
      fst (toggleSTTAndVisualizer s) = None
      \<and> snd (toggleSTTAndVisualizer s) = s\<lparr>engine := engine (snd (toggleSTTAndVisualizer s))\<rparr>)
   \<and> (sttFinalTranscript (onend s) = [] \<and> \<not> isListeningForSTT (onend s)
      \<and> (\<forall>t. sttPauseTimer s = Some t \<longrightarrow> t \<notin> set (timers (onend s)))
      \<and> liveStreams (onend s) = liveStreams s \<and> stoppedStreams (onend s) = stoppedStreams s
      \<and> mediaStreamSource (onend s) = mediaStreamSource s
      \<and> audioContext (onend s) = audioContext s \<and> openContexts (onend s) = openContexts s
      \<and> isVisualizerActive (onend s) = isVisualizerActive s
      \<and> visualElements (onend s) = visualElements s
      \<and> buttonActive (onend s) = buttonActive s \<and> mainView (onend s) = mainView s)
   \<and> (\<not> buttonActive (snd (onerror kind s)) \<and> \<not> isListeningForSTT (snd (onerror kind s))
      \<and> \<not> isVisualizerActive (snd (onerror kind s))
      \<and> mediaStreamSource (snd (onerror kind s)) = None
      \<and> (\<forall>k. mediaStreamSource s = Some k \<longrightarrow> k \<notin> set (liveStreams (snd (onerror kind s))))
      \<and> (\<forall>c. audioContext s = Some c \<longrightarrow> c \<notin> set (openContexts (snd (onerror kind s))))
      \<and> sttFinalTranscript (snd (onerror kind s)) = sttFinalTranscript s)
   \<and> (\<not> buttonActive (snd (onend_simple s)) \<and> \<not> isListeningForSTT (snd (onend_simple s))
      \<and> \<not> isVisualizerActive (snd (onend_simple s))
      \<and> mediaStreamSource (snd (onend_simple s)) = None
      \<and> (\<forall>k. mediaStreamSource s = Some k \<longrightarrow> k \<notin> set (liveStreams (snd (onend_simple s)))))
   \<and> (\<not> buttonActive (snd (onerror_simple kind s)) \<and> \<not> isListeningForSTT (snd (onerror_simple kind s))
      \<and> \<not> isVisualizerActive (snd (onerror_simple kind s))
      \<and> mediaStreamSource (snd (onerror_simple kind s)) = None
      \<and> (\<forall>k. mediaStreamSource s = Some k \<longrightarrow> k \<notin> set (liveStreams (snd (onerror_simple kind s)))))"
proof -
  have t: "isListeningForSTT s \<longrightarrow>
      fst (toggleSTTAndVisualizer s) = None
      \<and> snd (toggleSTTAndVisualizer s) = s\<lparr>engine := engine (snd (toggleSTTAndVisualizer s))\<rparr>"
    by (simp add: toggleSTTAndVisualizer_def recognition_stop_def)
  have e: "sttFinalTranscript (onend s) = [] \<and> \<not> isListeningForSTT (onend s)
      \<and> (\<forall>t. sttPauseTimer s = Some t \<longrightarrow> t \<notin> set (timers (onend s)))
      \<and> liveStreams (onend s) = liveStreams s \<and> stoppedStreams (onend s) = stoppedStreams s
      \<and> mediaStreamSource (onend s) = mediaStreamSource s
      \<and> audioContext (onend s) = audioContext s \<and> openContexts (onend s) = openContexts s
      \<and> isVisualizerActive (onend s) = isVisualizerActive s
      \<and> visualElements (onend s) = visualElements s
      \<and> buttonActive (onend s) = buttonActive s \<and> mainView (onend s) = mainView s"
    by (cases "sttPauseTimer s")
       (simp_all add: onend_def clearTimeout_def sendToBackend_def setTranscript_def Let_def)
  have r: "\<not> buttonActive (snd (onerror kind s)) \<and> \<not> isListeningForSTT (snd (onerror kind s))
      \<and> \<not> isVisualizerActive (snd (onerror kind s))
      \<and> mediaStreamSource (snd (onerror kind s)) = None
      \<and> (\<forall>k. mediaStreamSource s = Some k \<longrightarrow> k \<notin> set (liveStreams (snd (onerror kind s))))
      \<and> (\<forall>c. audioContext s = Some c \<longrightarrow> c \<notin> set (openContexts (snd (onerror kind s))))
      \<and> sttFinalTranscript (snd (onerror kind s)) = sttFinalTranscript s"
    by (cases "sttPauseTimer s"; cases "mediaStreamSource s"; cases "audioContext s";
        cases "visualElements s")
       (simp_all add: onerror_def stopVisualizer_def clearTimeout_def toggleMicButtonState_def
          speakText_def setTranscript_def Let_def)
  have es: "\<not> buttonActive (snd (onend_simple s)) \<and> \<not> isListeningForSTT (snd (onend_simple s))
      \<and> \<not> isVisualizerActive (snd (onend_simple s))
      \<and> mediaStreamSource (snd (onend_simple s)) = None
      \<and> (\<forall>k. mediaStreamSource s = Some k \<longrightarrow> k \<notin> set (liveStreams (snd (onend_simple s))))"
    by (cases "mediaStreamSource s"; cases "audioContext s"; cases "visualElements s")
       (simp_all add: onend_simple_def stopVisualizer_def toggleMicButtonState_def
          setTranscript_def Let_def)
  have rs: "\<not> buttonActive (snd (onerror_simple kind s)) \<and> \<not> isListeningForSTT (snd (onerror_simple kind s))
      \<and> \<not> isVisualizerActive (snd (onerror_simple kind s))
      \<and> mediaStreamSource (snd (onerror_simple kind s)) = None
      \<and> (\<forall>k. mediaStreamSource s = Some k \<longrightarrow> k \<notin> set (liveStreams (snd (onerror_simple kind s))))"
    by (cases "mediaStreamSource s"; cases "audioContext s"; cases "visualElements s")
       (simp_all add: onerror_simple_def stopVisualizer_def toggleMicButtonState_def
          setTranscript_def Let_def)
  show ?thesis using t e r es rs by blast
qed

theorem cleanup_paths_witness:
  "isListeningForSTT (run [Click, SpeechStart, MicGranted] (init 32 True))
   \<and> mediaStreamSource (run [Click, SpeechStart, MicGranted] (init 32 True)) = Some 0
   \<and> fst (toggleSTTAndVisualizer (run [Click, SpeechStart, MicGranted] (init 32 True))) = None
   \<and> liveStreams (onend (run [Click, SpeechStart, MicGranted] (init 32 True))) = [0]
   \<and> liveStreams (snd (onerror ''no-speech'' (run [Click, SpeechStart, MicGranted] (init 32 True))))
       = []"
proof -
  let ?s = "run [Click, SpeechStart, MicGranted] (init 32 True)"
  have a: "isListeningForSTT ?s" "mediaStreamSource ?s = Some 0" "liveStreams ?s = [0]"
    by (simp_all add: page_defs Let_def)
  show ?thesis using a cleanup_paths [of ?s "''no-speech''"]
    by (simp add: page_defs Let_def)
qed

section \<open>Capture streams that are never released\<close>

text \<open>No event releases a leaked stream: only the stream \<^verbatim>\<open>mediaStreamSource\<close> holds is ever stopped.\<close>

lemma leaked_cong:
  "liveStreams s' = liveStreams s \<Longrightarrow> mediaStreamSource s' = mediaStreamSource s \<Longrightarrow>
   nextStream s' = nextStream s \<Longrightarrow> leaked k s' = leaked k s"
  by (simp add: leaked_def)

lemma leaked_report: "leaked k (report r) = leaked k (snd r)"
  by (rule leaked_cong) (simp_all add: report_def split: prod.split option.split)

lemma leaked_speakText [simp]: "leaked k (speakText t s) = leaked k s"
  by (rule leaked_cong) (simp_all add: speakText_def Let_def)

lemma leaked_setTranscript [simp]: "leaked k (setTranscript t s) = leaked k s"
  by (rule leaked_cong) (simp_all add: setTranscript_def)

lemma leaked_toggleMic [simp]: "leaked k (toggleMicButtonState b s) = leaked k s"
  by (rule leaked_cong) (simp_all add: toggleMicButtonState_def)

lemma leaked_clearTimeout [simp]: "leaked k (clearTimeout h s) = leaked k s"
  by (rule leaked_cong) (simp_all add: clearTimeout_def split: option.split)

lemma leaked_sendToBackend [simp]: "leaked k (sendToBackend t s) = leaked k s"
  by (rule leaked_cong) (simp_all add: sendToBackend_def setTranscript_def Let_def)

lemma leaked_stopVisualizer: "leaked k s \<Longrightarrow> leaked k (snd (stopVisualizer s))"
  by (cases "mediaStreamSource s"; cases "audioContext s"; cases "visualElements s")
     (auto simp: leaked_def stopVisualizer_def Let_def)

lemma leaked_toggle: "leaked k (snd (toggleSTTAndVisualizer s)) = leaked k s"
  by (rule leaked_cong)
     (simp_all add: toggleSTTAndVisualizer_def recognition_stop_def recognition_start_def
        startVisualizer_def createDOMElementsForVisualizer_def Let_def)

lemma leaked_onstart: "leaked k (snd (onstart s)) = leaked k s"
  by (rule leaked_cong)
     (simp_all add: onstart_def clearTimeout_def setTranscript_def toggleMicButtonState_def
        Let_def split: option.split)

lemma leaked_onresult: "leaked k (onresult ev s) = leaked k s"
  by (rule leaked_cong)
     (simp_all add: onresult_def clearTimeout_def setTranscript_def setTimeout_def Let_def
        split: prod.split option.split)

lemma leaked_onend: "leaked k (onend s) = leaked k s"
  by (rule leaked_cong)
     (simp_all add: onend_def clearTimeout_def sendToBackend_def setTranscript_def Let_def
        split: option.split)

lemma leaked_pauseTimerFired: "leaked k (pauseTimerFired s) = leaked k s"
  by (rule leaked_cong)
     (simp_all add: pauseTimerFired_def sendToBackend_def setTranscript_def Let_def)

lemma leaked_onerror: "leaked k s \<Longrightarrow> leaked k (snd (onerror kind s))"
proof -
  assume i: "leaked k s"
  let ?s2 = "toggleMicButtonState False
               ((clearTimeout (sttPauseTimer s) s)\<lparr>isListeningForSTT := False\<rparr>)"
  have "leaked k ((clearTimeout (sttPauseTimer s) s)\<lparr>isListeningForSTT := False\<rparr>)
          = leaked k (clearTimeout (sttPauseTimer s) s)"
    by (rule leaked_cong) simp_all
  then have "leaked k ?s2" using i by simp
  then have "leaked k (snd (stopVisualizer ?s2))" by (rule leaked_stopVisualizer)
  then show ?thesis
    by (cases "stopVisualizer ?s2"; cases "fst (stopVisualizer ?s2)")
       (simp_all add: onerror_def Let_def)
qed

lemma leaked_catch: "leaked k (startVisualizer_catch name s) = leaked k s"
  by (rule leaked_cong)
     (simp_all add: startVisualizer_catch_def processVisualizerError_def speakText_def
        setTranscript_def toggleMicButtonState_def Let_def)

lemma leaked_granted:
  "leaked k s \<Longrightarrow> k \<noteq> j \<Longrightarrow> leaked k (startVisualizer_granted j s)"
  using leaked_catch [of k "''TypeError''" s]
  by (cases "audioContext s") (auto simp: leaked_def startVisualizer_granted_def)

lemma leaked_resume: "leaked k (sendToBackend_resume out s) = leaked k s"
  by (simp add: sendToBackend_resume_def sendToBackend_catch_def
        split: fetch_outcome.split body.split option.split)

lemma leaked_frame: "leaked k (snd (renderVisualizerFrame d s)) = leaked k s"
  by (rule leaked_cong)
     (simp_all add: renderVisualizerFrame_def processFrameForVisualizer_def
        split: prod.split option.split)

lemma leaked_fire:
  assumes "leaked k s"
  shows "leaked k (fire e s)"
proof (cases e)
  case Click
  then show ?thesis using assms by (simp add: leaked_report leaked_toggle)
next
  case SpeechStart
  then show ?thesis using assms by (simp add: leaked_report leaked_onstart)
next
  case (SpeechResult ev)
  then show ?thesis using assms by (simp add: leaked_onresult)
next
  case (SpeechError kind)
  then show ?thesis using assms by (simp add: leaked_report leaked_onerror)
next
  case SpeechEnd
  have "leaked k (s\<lparr>engine := Idle\<rparr>)" using assms by (simp add: leaked_def)
  then show ?thesis using SpeechEnd assms by (simp add: leaked_onend)
next
  case (TimerFired t)
  have "leaked k (s\<lparr>timers := removeAll t (timers s)\<rparr>)" using assms by (simp add: leaked_def)
  then show ?thesis using TimerFired assms by (simp add: leaked_pauseTimerFired)
next
  case MicGranted
  let ?s1 = "s\<lparr>pendingMic := pendingMic s - 1, nextStream := nextStream s + 1,
              liveStreams := liveStreams s @ [nextStream s]\<rparr>"
  have "leaked k ?s1" "k \<noteq> nextStream s" using assms by (simp_all add: leaked_def)
  then show ?thesis using MicGranted assms by (simp add: leaked_granted Let_def)
next
  case (MicDenied name)
  have "leaked k (s\<lparr>pendingMic := pendingMic s - 1\<rparr>)" using assms by (simp add: leaked_def)
  then show ?thesis using MicDenied assms by (simp add: leaked_catch)
next
  case (AnimationFrame d)
  have "leaked k (s\<lparr>renderLoops := renderLoops s - 1\<rparr>)" using assms by (simp add: leaked_def)
  then show ?thesis using AnimationFrame assms by (simp add: leaked_report leaked_frame)
next
  case (FetchSettled out)
  have "leaked k (s\<lparr>inFlight := inFlight s - 1\<rparr>)" using assms by (simp add: leaked_def)
  then show ?thesis using FetchSettled assms by (simp add: leaked_resume)
next
  case UtteranceEnded
  then show ?thesis using assms by (simp add: leaked_def)
qed

lemma leaked_run: "leaked k s \<Longrightarrow> leaked k (run es s)"
  by (induction es arbitrary: s) (simp_all add: leaked_fire)

text \<open>
  C2. At most one capture session is active, the flags tell exactly what is active, and
  toggling twice in a row ends idle with nothing leaked. The guard of
  \<^verbatim>\<open>startVisualizer\<close> looks at \<^verbatim>\<open>isVisualizerActive\<close>, which is set only after the
  permission is granted, and \<^verbatim>\<open>stopVisualizer\<close> releases only what \<^verbatim>\<open>mediaStreamSource\<close>
  holds. So: (1) a click, an engine error while the permission is pending, the end of
  the session, then the grant: every flag says idle and the button is back, yet
  stream 0 is live, nothing refers to it, and it stays live whatever follows;
  (2) with a second click before the grants, two streams are live at once and stream 0
  stays live whatever follows; (3) two calls of the toggle in a row open two audio
  contexts, request the microphone twice, throw on the second
  \<^verbatim>\<open>recognition.start()\<close>, and leave the engine started and two streams live after the
  grants, not an idle page.
\<close>

theorem leaked_stream:
  "(let s = run [Click, SpeechError ''network'', SpeechEnd, MicGranted] (init 32 True)
    in \<not> isListeningForSTT s \<and> \<not> isVisualizerActive s \<and> engine s = Idle
       \<and> mainView s = ShowsButton \<and> pendingMic s = 0
       \<and> liveStreams s = [0] \<and> mediaStreamSource s = None \<and> audioContext s = None
       \<and> 0 \<in> set (liveStreams (run es s)))
   \<and> (let s = run [Click, SpeechError ''network'', SpeechEnd, Click, MicGranted, MicGranted]
                 (init 32 True)
      in liveStreams s = [0, 1] \<and> mediaStreamSource s = Some 1 \<and> isVisualizerActive s
         \<and> 0 \<in> set (liveStreams (run es s)))
   \<and> (let r = toggleSTTAndVisualizer (snd (toggleSTTAndVisualizer (init 32 True)))
      in fst r = Some InvalidStateError \<and> openContexts (snd r) = [0, 1] \<and> pendingMic (snd r) = 2
         \<and> engine (snd r) = Started
         \<and> liveStreams (run [MicGranted, MicGranted] (snd r)) = [0, 1]
         \<and> mediaStreamSource (run [MicGranted, MicGranted] (snd r)) = Some 1)"
proof -
  let ?a = "run [Click, SpeechError ''network'', SpeechEnd, MicGranted] (init 32 True)"
  let ?b = "run [Click, SpeechError ''network'', SpeechEnd, Click, MicGranted, MicGranted]
                 (init 32 True)"
  have a: "\<not> isListeningForSTT ?a \<and> \<not> isVisualizerActive ?a \<and> engine ?a = Idle
       \<and> mainView ?a = ShowsButton \<and> pendingMic ?a = 0
       \<and> liveStreams ?a = [0] \<and> mediaStreamSource ?a = None \<and> audioContext ?a = None
       \<and> nextStream ?a = 1"
    by (simp add: page_defs Let_def)
  have b: "liveStreams ?b = [0, 1] \<and> mediaStreamSource ?b = Some 1 \<and> isVisualizerActive ?b
       \<and> nextStream ?b = 2"
    by (simp add: page_defs Let_def)
  have la: "leaked 0 ?a" using a by (simp add: leaked_def)
  have lb: "leaked 0 ?b" using b by (simp add: leaked_def)
  have ea: "0 \<in> set (liveStreams (run es ?a))" using leaked_run [OF la, of es] by (simp add: leaked_def)
  have eb: "0 \<in> set (liveStreams (run es ?b))" using leaked_run [OF lb, of es] by (simp add: leaked_def)
  have c: "(let r = toggleSTTAndVisualizer (snd (toggleSTTAndVisualizer (init 32 True)))
      in fst r = Some InvalidStateError \<and> openContexts (snd r) = [0, 1] \<and> pendingMic (snd r) = 2
         \<and> engine (snd r) = Started
         \<and> liveStreams (run [MicGranted, MicGranted] (snd r)) = [0, 1]
         \<and> mediaStreamSource (run [MicGranted, MicGranted] (snd r)) = Some 1)"
    by (simp add: page_defs Let_def)
  show ?thesis using a b ea eb c by (simp only: Let_def) blast
qed

end
